theory Spec2Isabelle
  imports Main "HOL-Library.Word" "HOL-Library.Monad_Syntax"
begin

unbundle bit_operations_syntax

section \<open>Consensus replica (raft/raft.go, raft/util.go, raft/persistor.go)\<close>

subsection \<open>Data model\<close>

text \<open>
  A log entry carries an opaque command (\<open>interface{}\<close>); \<open>None\<close> is the nil
  command of the placeholder entry. Go's \<open>int\<close> is modelled by \<open>int\<close>: the
  handlers only compare indices and terms and add small constants.
\<close>

record 'c LogEntry =
  Index :: int
  Term :: int
  Command :: "'c option"

datatype State = STATE_CANDIDATE | STATE_FOLLOWER | STATE_LEADER

type_synonym bytes = "8 word list"

record 'c ApplyMsg =
  CommandValid :: bool
  CommandIndex :: int
  msgCommand :: "'c option"
  UseSnapshot :: bool
  Snapshot :: bytes

text \<open>
  The persister holds two blobs. The raft-state blob is the serializer's encoding of
  \<open>(currentTerm, votedFor, log)\<close>; the serializer is an external collaborator, so the
  blob is kept as the encoded triple (\<open>None\<close> is the nil blob). The snapshot blob is
  a byte slice (nil and empty are both \<open>[]\<close>).
\<close>

datatype 'c RaftStateBlob = RaftStateBlob int int "'c LogEntry list"

record 'c Persister =
  raftstate :: "'c RaftStateBlob option"
  snapshot :: bytes

definition SaveRaftState :: "'c Persister \<Rightarrow> 'c RaftStateBlob \<Rightarrow> 'c Persister" where
  "SaveRaftState ps st = ps\<lparr>raftstate := Some st\<rparr>"

definition SaveStateAndSnapshot ::
  "'c Persister \<Rightarrow> 'c RaftStateBlob \<Rightarrow> bytes \<Rightarrow> 'c Persister" where
  "SaveStateAndSnapshot ps st snap = ps\<lparr>raftstate := Some st, snapshot := snap\<rparr>"

text \<open>
  The replica. \<open>peers\<close> is \<open>len(rf.peers)\<close>; the buffered channels are the lists of
  the values sent on them, oldest first (a send appends; blocking on a full buffer is
  not modelled).
\<close>

record 'c Raft =
  peers :: nat
  persister :: "'c Persister"
  me :: int
  state :: State
  voteCount :: int
  currentTerm :: int
  votedFor :: int
  log :: "'c LogEntry list"
  commitIndex :: int
  lastApplied :: int
  nextIndex :: "int list"
  matchIndex :: "int list"
  chanApply :: "'c ApplyMsg list"
  chanGrantVote :: "bool list"
  chanWinElect :: "bool list"
  chanHeartbeat :: "bool list"

text \<open>\<open>min\<close> of raft/util.go.\<close>

definition min_int :: "int \<Rightarrow> int \<Rightarrow> int" where
  "min_int x y = (if x < y then x else y)"

text \<open>
  Slice indexing \<open>s[i]\<close> with a Go \<open>int\<close>: out of range panics, which is \<open>None\<close>.
\<close>

definition at :: "'a list \<Rightarrow> int \<Rightarrow> 'a option" where
  "at xs i = (if 0 \<le> i \<and> i < int (length xs) then Some (xs ! nat i) else None)"

text \<open>
  The slice expression \<open>s[:n]\<close>. Go allows \<open>n\<close> up to the capacity; the model takes
  the length as the bound, and panics beyond it.
\<close>

definition slice_to :: "'a list \<Rightarrow> int \<Rightarrow> 'a list option" where
  "slice_to xs n = (if 0 \<le> n \<and> n \<le> int (length xs) then Some (take (nat n) xs) else None)"

definition getLastLogTerm :: "'c Raft \<Rightarrow> int option" where
  "getLastLogTerm rf = map_option Term (at (log rf) (int (length (log rf)) - 1))"

definition getLastLogIndex :: "'c Raft \<Rightarrow> int option" where
  "getLastLogIndex rf = map_option Index (at (log rf) (int (length (log rf)) - 1))"

definition getRaftState :: "'c Raft \<Rightarrow> 'c RaftStateBlob" where
  "getRaftState rf = RaftStateBlob (currentTerm rf) (votedFor rf) (log rf)"

definition persist :: "'c Raft \<Rightarrow> 'c Raft" where
  "persist rf = rf\<lparr>persister := SaveRaftState (persister rf) (getRaftState rf)\<rparr>"

subsection \<open>RequestVote\<close>

record RequestVoteArgs =
  rvTerm :: int
  CandidateId :: int
  LastLogIndex :: int
  LastLogTerm :: int

record RequestVoteReply =
  rvrTerm :: int
  VoteGranted :: bool

definition isUpToDate :: "'c Raft \<Rightarrow> int \<Rightarrow> int \<Rightarrow> bool option" where
  "isUpToDate rf candidateTerm candidateIndex = do {
     term \<leftarrow> getLastLogTerm rf;
     index \<leftarrow> getLastLogIndex rf;
     Some (candidateTerm > term \<or> (candidateTerm = term \<and> candidateIndex \<ge> index))
   }"

text \<open>
  The handler takes the reply struct it fills in and returns the new replica state with
  the reply. \<open>defer rf.persist()\<close> runs on every return. In the grant condition Go's
  \<open>&&\<close> evaluates \<open>isUpToDate\<close> only when the \<open>votedFor\<close> test holds.
\<close>

definition RequestVote ::
  "'c Raft \<Rightarrow> RequestVoteArgs \<Rightarrow> RequestVoteReply \<Rightarrow> ('c Raft \<times> RequestVoteReply) option" where
  "RequestVote rf args reply =
     (if rvTerm args < currentTerm rf then
        Some (persist rf, reply\<lparr>rvrTerm := currentTerm rf, VoteGranted := False\<rparr>)
      else
        let rf1 = (if rvTerm args > currentTerm rf
                   then rf\<lparr>state := STATE_FOLLOWER, currentTerm := rvTerm args, votedFor := -1\<rparr>
                   else rf);
            reply1 = reply\<lparr>rvrTerm := currentTerm rf1, VoteGranted := False\<rparr>
        in if votedFor rf1 = -1 \<or> votedFor rf1 = CandidateId args then
             (case isUpToDate rf1 (LastLogTerm args) (LastLogIndex args) of
                None \<Rightarrow> None
              | Some True \<Rightarrow>
                  Some (persist (rf1\<lparr>votedFor := CandidateId args,
                                     chanGrantVote := chanGrantVote rf1 @ [True]\<rparr>),
                        reply1\<lparr>VoteGranted := True\<rparr>)
              | Some False \<Rightarrow> Some (persist rf1, reply1))
           else Some (persist rf1, reply1))"

subsection \<open>Start\<close>

text \<open>Returns the new state with \<open>(index, term, isLeader)\<close>.\<close>

definition Start :: "'c Raft \<Rightarrow> 'c option \<Rightarrow> ('c Raft \<times> int \<times> int \<times> bool) option" where
  "Start rf command =
     (let isLeader = (state rf = STATE_LEADER) in
      if isLeader then do {
        last \<leftarrow> getLastLogIndex rf;
        let term = currentTerm rf;
        let index = last + 1;
        let rf1 = rf\<lparr>log := log rf @ [\<lparr>Index = index, Term = term, Command = command\<rparr>]\<rparr>;
        Some (persist rf1, index, term, isLeader)
      }
      else Some (rf, -1, -1, isLeader))"

subsection \<open>AppendEntries\<close>

record 'c AppendEntriesArgs =
  aeTerm :: int
  LeaderId :: int
  PrevLogIndex :: int
  PrevLogTerm :: int
  Entries :: "'c LogEntry list"
  LeaderCommit :: int

record AppendEntriesReply =
  aerTerm :: int
  Success :: bool
  NextTryIndex :: int

text \<open>
  The fast-backup loop
  \<^verbatim>\<open>for i := args.PrevLogIndex - 1; i >= baseIndex; i-- {
    if rf.log[i-baseIndex].Term != term { reply.NextTryIndex = i + 1; break } }\<close>
  threads the reply: it is returned unchanged when the loop runs off its lower end.
\<close>

function conflictLoop ::
  "'c LogEntry list \<Rightarrow> int \<Rightarrow> int \<Rightarrow> int \<Rightarrow> AppendEntriesReply \<Rightarrow> AppendEntriesReply option" where
  "conflictLoop lg baseIndex term i reply =
     (if i \<ge> baseIndex then
        (case at lg (i - baseIndex) of
           None \<Rightarrow> None
         | Some e \<Rightarrow>
             if Term e \<noteq> term then Some (reply\<lparr>NextTryIndex := i + 1\<rparr>)
             else conflictLoop lg baseIndex term (i - 1) reply)
      else Some reply)"
  by pat_completeness auto
termination
  by (relation "measure (\<lambda>(lg, baseIndex, term, i, reply). nat (i - baseIndex + 1))") auto

declare conflictLoop.simps [simp del]

text \<open>
  \<open>go rf.applyLog()\<close> starts a goroutine that takes the lock after the handler has
  returned: it is the separate step \<open>applyLog\<close> below.
\<close>

definition AppendEntries ::
  "'c Raft \<Rightarrow> 'c AppendEntriesArgs \<Rightarrow> AppendEntriesReply
     \<Rightarrow> ('c Raft \<times> AppendEntriesReply) option" where
  "AppendEntries rf args reply =
     (let reply0 = reply\<lparr>Success := False\<rparr> in
      if aeTerm args < currentTerm rf then do {
        last \<leftarrow> getLastLogIndex rf;
        Some (persist rf, reply0\<lparr>aerTerm := currentTerm rf, NextTryIndex := last + 1\<rparr>)
      }
      else do {
        let rf1 = (if aeTerm args > currentTerm rf
                   then rf\<lparr>state := STATE_FOLLOWER, currentTerm := aeTerm args, votedFor := -1\<rparr>
                   else rf);
        let rf2 = rf1\<lparr>chanHeartbeat := chanHeartbeat rf1 @ [True]\<rparr>;
        let reply1 = reply0\<lparr>aerTerm := currentTerm rf2\<rparr>;
        last \<leftarrow> getLastLogIndex rf2;
        if PrevLogIndex args > last then
          Some (persist rf2, reply1\<lparr>NextTryIndex := last + 1\<rparr>)
        else do {
          first \<leftarrow> at (log rf2) 0;
          let baseIndex = Index first;
          conflict \<leftarrow> (if PrevLogIndex args \<ge> baseIndex
                       then map_option (\<lambda>e. PrevLogTerm args \<noteq> Term e)
                              (at (log rf2) (PrevLogIndex args - baseIndex))
                       else Some False);
          if conflict then do {
            e \<leftarrow> at (log rf2) (PrevLogIndex args - baseIndex);
            reply2 \<leftarrow> conflictLoop (log rf2) baseIndex (Term e) (PrevLogIndex args - 1) reply1;
            Some (persist rf2, reply2)
          }
          else if PrevLogIndex args \<ge> baseIndex - 1 then do {
            pre \<leftarrow> slice_to (log rf2) (PrevLogIndex args - baseIndex + 1);
            let rf3 = rf2\<lparr>log := pre @ Entries args\<rparr>;
            let reply2 = reply1\<lparr>Success := True,
                                NextTryIndex := PrevLogIndex args + int (length (Entries args))\<rparr>;
            if commitIndex rf3 < LeaderCommit args then do {
              last3 \<leftarrow> getLastLogIndex rf3;
              Some (persist (rf3\<lparr>commitIndex := min_int (LeaderCommit args) last3\<rparr>), reply2)
            }
            else Some (persist rf3, reply2)
          }
          else Some (persist rf2, reply1)
        }
      })"

subsection \<open>applyLog\<close>

function applyLoop ::
  "'c LogEntry list \<Rightarrow> int \<Rightarrow> int \<Rightarrow> int \<Rightarrow> 'c ApplyMsg list \<Rightarrow> 'c ApplyMsg list option" where
  "applyLoop lg baseIndex i commit ch =
     (if i \<le> commit then
        (case at lg (i - baseIndex) of
           None \<Rightarrow> None
         | Some e \<Rightarrow>
             applyLoop lg baseIndex (i + 1) commit
               (ch @ [\<lparr>CommandValid = True, CommandIndex = i, msgCommand = Command e,
                       UseSnapshot = False, Snapshot = []\<rparr>]))
      else Some ch)"
  by pat_completeness auto
termination
  by (relation "measure (\<lambda>(lg, baseIndex, i, commit, ch). nat (commit + 1 - i))") auto

declare applyLoop.simps [simp del]

definition applyLog :: "'c Raft \<Rightarrow> 'c Raft option" where
  "applyLog rf = do {
     first \<leftarrow> at (log rf) 0;
     ch \<leftarrow> applyLoop (log rf) (Index first) (lastApplied rf + 1) (commitIndex rf) (chanApply rf);
     Some (rf\<lparr>chanApply := ch, lastApplied := commitIndex rf\<rparr>)
   }"

subsection \<open>The leader's handling of an AppendEntries reply\<close>

text \<open>Slice assignment \<open>s[i] = v\<close>; out of range panics.\<close>

definition store :: "'a list \<Rightarrow> int \<Rightarrow> 'a \<Rightarrow> 'a list option" where
  "store xs i v = (if 0 \<le> i \<and> i < int (length xs) then Some (xs[nat i := v]) else None)"

text \<open>
  The inner loop \<open>for i := range rf.peers\<close> of the commit phase, over the peer numbers
  still to visit, with the running \<open>count\<close>.
\<close>

fun countLoop :: "int list \<Rightarrow> int \<Rightarrow> int \<Rightarrow> nat list \<Rightarrow> int \<Rightarrow> int option" where
  "countLoop mi m N [] count = Some count"
| "countLoop mi m N (i # is) count =
     (if int i \<noteq> m then
        (case at mi (int i) of
           None \<Rightarrow> None
         | Some v \<Rightarrow> if v \<ge> N then countLoop mi m N is (count + 1) else countLoop mi m N is count)
      else countLoop mi m N is count)"

text \<open>
  The commit phase
  \<^verbatim>\<open>for N := rf.getLastLogIndex(); N > rf.commitIndex &&
      rf.log[N-baseIndex].Term == rf.currentTerm; N-- { ... }\<close>
\<close>

function commitLoop :: "'c Raft \<Rightarrow> int \<Rightarrow> int \<Rightarrow> 'c Raft option" where
  "commitLoop rf baseIndex N =
     (if N > commitIndex rf then
        (case at (log rf) (N - baseIndex) of
           None \<Rightarrow> None
         | Some e \<Rightarrow>
             if Term e = currentTerm rf then
               (case countLoop (matchIndex rf) (me rf) N [0..<peers rf] 1 of
                  None \<Rightarrow> None
                | Some count \<Rightarrow>
                    if count > int (peers rf) div 2 then Some (rf\<lparr>commitIndex := N\<rparr>)
                    else commitLoop rf baseIndex (N - 1))
             else Some rf)
      else Some rf)"
  by pat_completeness auto
termination
  by (relation "measure (\<lambda>(rf, baseIndex, N). nat (N - commitIndex rf))") auto

declare commitLoop.simps [simp del]

text \<open>
  \<open>sendAppendEntries\<close> after \<open>Call\<close> has returned \<open>ok\<close> and filled in \<open>reply\<close>.
\<close>

definition sendAppendEntries ::
  "'c Raft \<Rightarrow> int \<Rightarrow> 'c AppendEntriesArgs \<Rightarrow> AppendEntriesReply \<Rightarrow> bool \<Rightarrow> 'c Raft option" where
  "sendAppendEntries rf server args reply ok =
     (if \<not> ok \<or> state rf \<noteq> STATE_LEADER \<or> aeTerm args \<noteq> currentTerm rf then Some rf
      else if aerTerm reply > currentTerm rf then
        Some (persist (rf\<lparr>currentTerm := aerTerm reply, state := STATE_FOLLOWER, votedFor := -1\<rparr>))
      else do {
        rf1 \<leftarrow> (if Success reply then
                  (if length (Entries args) > 0 then do {
                     e \<leftarrow> at (Entries args) (int (length (Entries args)) - 1);
                     ni \<leftarrow> store (nextIndex rf) server (Index e + 1);
                     v \<leftarrow> at ni server;
                     mi \<leftarrow> store (matchIndex rf) server (v - 1);
                     Some (rf\<lparr>nextIndex := ni, matchIndex := mi\<rparr>)
                   }
                   else Some rf)
                else do {
                  last \<leftarrow> getLastLogIndex rf;
                  ni \<leftarrow> store (nextIndex rf) server (min_int (NextTryIndex reply) last);
                  Some (rf\<lparr>nextIndex := ni\<rparr>)
                });
        first \<leftarrow> at (log rf1) 0;
        last \<leftarrow> getLastLogIndex rf1;
        commitLoop rf1 (Index first) last
      })"

subsection \<open>InstallSnapshot\<close>

record InstallSnapshotArgs =
  isTerm :: int
  isLeaderId :: int
  LastIncludedIndex :: int
  LastIncludedTerm :: int
  Data :: bytes

record InstallSnapshotReply =
  isrTerm :: int

text \<open>
  The scan of \<open>trimLog\<close>, \<open>for i := len(rf.log) - 1; i >= 0; i--\<close>: the counter of
  the model is \<open>i + 1\<close>.
\<close>

fun trimLoop ::
  "'c LogEntry list \<Rightarrow> int \<Rightarrow> int \<Rightarrow> nat \<Rightarrow> 'c LogEntry list \<Rightarrow> 'c LogEntry list" where
  "trimLoop lg lastIncludedIndex lastIncludedTerm 0 newLog = newLog"
| "trimLoop lg lastIncludedIndex lastIncludedTerm (Suc i) newLog =
     (if Index (lg ! i) = lastIncludedIndex \<and> Term (lg ! i) = lastIncludedTerm
      then newLog @ drop (i + 1) lg
      else trimLoop lg lastIncludedIndex lastIncludedTerm i newLog)"

definition trimLog :: "'c Raft \<Rightarrow> int \<Rightarrow> int \<Rightarrow> 'c Raft" where
  "trimLog rf lastIncludedIndex lastIncludedTerm =
     rf\<lparr>log := trimLoop (log rf) lastIncludedIndex lastIncludedTerm (length (log rf))
                  [\<lparr>Index = lastIncludedIndex, Term = lastIncludedTerm, Command = None\<rparr>]\<rparr>"

definition InstallSnapshot ::
  "'c Raft \<Rightarrow> InstallSnapshotArgs \<Rightarrow> InstallSnapshotReply \<Rightarrow> 'c Raft \<times> InstallSnapshotReply" where
  "InstallSnapshot rf args reply =
     (if isTerm args < currentTerm rf then (rf, reply\<lparr>isrTerm := currentTerm rf\<rparr>)
      else
        let rf1 = (if isTerm args > currentTerm rf
                   then persist (rf\<lparr>state := STATE_FOLLOWER, currentTerm := isTerm args,
                                    votedFor := -1\<rparr>)
                   else rf);
            rf2 = rf1\<lparr>chanHeartbeat := chanHeartbeat rf1 @ [True]\<rparr>;
            reply1 = reply\<lparr>isrTerm := currentTerm rf2\<rparr>
        in if LastIncludedIndex args > commitIndex rf2 then
             let rf3 = trimLog rf2 (LastIncludedIndex args) (LastIncludedTerm args);
                 rf4 = rf3\<lparr>lastApplied := LastIncludedIndex args,
                           commitIndex := LastIncludedIndex args\<rparr>;
                 rf5 = rf4\<lparr>persister :=
                             SaveStateAndSnapshot (persister rf4) (getRaftState rf4) (Data args)\<rparr>
             in (rf5\<lparr>chanApply := chanApply rf5 @
                        [\<lparr>CommandValid = False, CommandIndex = 0, msgCommand = None,
                          UseSnapshot = True, Snapshot = Data args\<rparr>]\<rparr>,
                 reply1)
           else (rf2, reply1))"

section \<open>Replicated key-value layer (kvraft/common.go, kvraft/server.go)\<close>

type_synonym Err = string

definition OK :: Err where
  "OK = ''OK''"

definition ErrNoKey :: Err where
  "ErrNoKey = ''ErrNoKey''"

text \<open>
  Client and request ids are \<open>int64\<close>; the server only compares and stores them, so they
  are \<open>int\<close>.
\<close>

record Op =
  opCommand :: string
  opClientId :: int
  opRequestId :: int
  opKey :: string
  opValue :: string

record Result =
  resCommand :: string
  resOK :: bool
  resClientId :: int
  resRequestId :: int
  resWrongLeader :: bool
  resErr :: Err
  resValue :: string

record GetArgs =
  gaKey :: string
  gaClientId :: int
  gaRequestId :: int

record GetReply =
  grWrongLeader :: bool
  grErr :: Err
  grValue :: string

record PutAppendArgs =
  paKey :: string
  paValue :: string
  paCommand :: string
  paClientId :: int
  paRequestId :: int

record PutAppendReply =
  parWrongLeader :: bool
  parErr :: Err

text \<open>
  The server. A result channel has capacity 1; it is the list of the values waiting in it.
\<close>

record KVServer =
  kv_rf :: "Op Raft"
  kv_maxraftstate :: int
  kv_data :: "string \<rightharpoonup> string"
  kv_ack :: "int \<rightharpoonup> int"
  kv_resultCh :: "int \<rightharpoonup> Result list"

text \<open>The zero values \<open>Result{}\<close> and \<open>Op{}\<close>.\<close>

definition Result_zero :: Result where
  "Result_zero = \<lparr>resCommand = [], resOK = False, resClientId = 0, resRequestId = 0,
                   resWrongLeader = False, resErr = [], resValue = []\<rparr>"

definition Op_zero :: Op where
  "Op_zero = \<lparr>opCommand = [], opClientId = 0, opRequestId = 0, opKey = [], opValue = []\<rparr>"

definition isMatch :: "Op \<Rightarrow> Result \<Rightarrow> bool" where
  "isMatch entry result =
     (opClientId entry = resClientId result \<and> opRequestId entry = resRequestId result)"

definition isDuplicated :: "KVServer \<Rightarrow> Op \<Rightarrow> bool" where
  "isDuplicated kv op =
     (case kv_ack kv (opClientId op) of
        Some lastRequestId \<Rightarrow> lastRequestId \<ge> opRequestId op
      | None \<Rightarrow> False)"

text \<open>
  \<open>kv.data[op.Key] += op.Value\<close> reads the empty string for an absent key. A command
  string other than the three of the \<open>switch\<close> leaves \<open>data\<close> and \<open>Err\<close> as they are.
\<close>

definition applyOp :: "KVServer \<Rightarrow> Op \<Rightarrow> KVServer \<times> Result" where
  "applyOp kv op =
     (let result = Result_zero\<lparr>resCommand := opCommand op, resOK := True,
                               resWrongLeader := False, resClientId := opClientId op,
                               resRequestId := opRequestId op\<rparr>;
          (kv1, result1) =
            (if opCommand op = ''put'' then
               ((if \<not> isDuplicated kv op
                 then kv\<lparr>kv_data := (kv_data kv)(opKey op \<mapsto> opValue op)\<rparr> else kv),
                result\<lparr>resErr := OK\<rparr>)
             else if opCommand op = ''append'' then
               ((if \<not> isDuplicated kv op
                 then kv\<lparr>kv_data := (kv_data kv)(opKey op \<mapsto>
                            (case kv_data kv (opKey op) of None \<Rightarrow> [] | Some v \<Rightarrow> v) @ opValue op)\<rparr>
                 else kv),
                result\<lparr>resErr := OK\<rparr>)
             else if opCommand op = ''get'' then
               (case kv_data kv (opKey op) of
                  Some v \<Rightarrow> (kv, result\<lparr>resErr := OK, resValue := v\<rparr>)
                | None \<Rightarrow> (kv, result\<lparr>resErr := ErrNoKey\<rparr>))
             else (kv, result))
      in (kv1\<lparr>kv_ack := (kv_ack kv1)(opClientId op \<mapsto> opRequestId op)\<rparr>, result1))"

text \<open>
  One turn of the loop of \<open>Run\<close> for a command message: apply, drain a stale value from
  the index's channel or create the channel, send the result. (\<open>msg.Command.(Op)\<close>
  panics on a nil command. The snapshot branch decodes with the external serializer, and
  \<open>go kv.rf.CreateSnapshot\<close> is a later step of the replica; neither is modelled.)
\<close>

definition Run_command :: "KVServer \<Rightarrow> Op ApplyMsg \<Rightarrow> KVServer option" where
  "Run_command kv msg =
     (case msgCommand msg of
        None \<Rightarrow> None
      | Some op \<Rightarrow>
          let (kv1, result) = applyOp kv op;
              ch = (case kv_resultCh kv1 (CommandIndex msg) of
                      Some waiting \<Rightarrow> drop 1 waiting
                    | None \<Rightarrow> [])
          in Some (kv1\<lparr>kv_resultCh := (kv_resultCh kv1)(CommandIndex msg \<mapsto> ch @ [result])\<rparr>))"

text \<open>The operations of a list applied in order, as successive turns of the loop do.\<close>

fun applyOps :: "KVServer \<Rightarrow> Op list \<Rightarrow> KVServer" where
  "applyOps kv [] = kv"
| "applyOps kv (op # ops) = applyOps (fst (applyOp kv op)) ops"

text \<open>
  The \<open>select\<close> of \<open>appendEntryToLog\<close> has two cases: a value is received from the
  index's result channel, or \<open>time.After(240 * time.Millisecond)\<close> fires first. Which
  one happens is decided by the scheduler and the clock; the handler is a function of it.
\<close>

datatype select_outcome = Received Result | Timeout

definition appendEntryToLog ::
  "KVServer \<Rightarrow> Op \<Rightarrow> select_outcome \<Rightarrow> (KVServer \<times> Result) option" where
  "appendEntryToLog kv entry sel = do {
     (rf1, index, term, isLeader) \<leftarrow> Start (kv_rf kv) (Some entry);
     if \<not> isLeader then Some (kv\<lparr>kv_rf := rf1\<rparr>, Result_zero\<lparr>resOK := False\<rparr>)
     else
       let kv1 = kv\<lparr>kv_rf := rf1,
                    kv_resultCh := (if kv_resultCh kv index = None
                                    then (kv_resultCh kv)(index \<mapsto> [])
                                    else kv_resultCh kv)\<rparr>
       in (case sel of
             Received result \<Rightarrow>
               if isMatch entry result then Some (kv1, result)
               else Some (kv1, Result_zero\<lparr>resOK := False\<rparr>)
           | Timeout \<Rightarrow> Some (kv1, Result_zero\<lparr>resOK := False\<rparr>))
   }"

definition Get ::
  "KVServer \<Rightarrow> GetArgs \<Rightarrow> GetReply \<Rightarrow> select_outcome \<Rightarrow> (KVServer \<times> GetReply) option" where
  "Get kv args reply sel = do {
     let entry = Op_zero\<lparr>opCommand := ''get'', opClientId := gaClientId args,
                          opRequestId := gaRequestId args, opKey := gaKey args\<rparr>;
     (kv1, result) \<leftarrow> appendEntryToLog kv entry sel;
     if \<not> resOK result then Some (kv1, reply\<lparr>grWrongLeader := True\<rparr>)
     else Some (kv1, reply\<lparr>grWrongLeader := False, grErr := resErr result,
                           grValue := resValue result\<rparr>)
   }"

definition PutAppend ::
  "KVServer \<Rightarrow> PutAppendArgs \<Rightarrow> PutAppendReply \<Rightarrow> select_outcome
     \<Rightarrow> (KVServer \<times> PutAppendReply) option" where
  "PutAppend kv args reply sel = do {
     let entry = Op_zero\<lparr>opCommand := paCommand args, opClientId := paClientId args,
                          opRequestId := paRequestId args, opKey := paKey args,
                          opValue := paValue args\<rparr>;
     (kv1, result) \<leftarrow> appendEntryToLog kv entry sel;
     if \<not> resOK result then Some (kv1, reply\<lparr>parWrongLeader := True\<rparr>)
     else Some (kv1, reply\<lparr>parWrongLeader := False, parErr := resErr result\<rparr>)
   }"

section \<open>Linearizability checker (linearizability/bitset.go, model.go, models.go, linearizability.go)\<close>

subsection \<open>bitset\<close>

text \<open>
  A bitset is a slice of 64-bit words. Positions are \<open>uint\<close>; they are \<open>nat\<close> here.
  \<open>set\<close> and \<open>clear\<close> write into the slice they are called on; the model returns the
  written slice, and \<open>clone\<close> is the copy. An index beyond the slice panics (\<open>None\<close>).
\<close>

type_synonym bitset = "64 word list"

definition newBitset :: "nat \<Rightarrow> bitset" where
  "newBitset bits =
     (let extra = (if bits mod 64 \<noteq> 0 then 1 else 0);
          chunks = bits div 64 + extra
      in replicate chunks 0)"

definition clone :: "bitset \<Rightarrow> bitset" where
  "clone b = b"

definition bitsetIndex :: "nat \<Rightarrow> nat \<times> nat" where
  "bitsetIndex pos = (pos div 64, pos mod 64)"

definition bitset_set :: "bitset \<Rightarrow> nat \<Rightarrow> bitset option" where
  "bitset_set b pos =
     (let (major, minor) = bitsetIndex pos
      in if major < length b then Some (b[major := (b ! major) OR push_bit minor 1]) else None)"

definition bitset_clear :: "bitset \<Rightarrow> nat \<Rightarrow> bitset option" where
  "bitset_clear b pos =
     (let (major, minor) = bitsetIndex pos
      in if major < length b then Some (b[major := (b ! major) AND NOT (push_bit minor 1)])
         else None)"

definition bitset_get :: "bitset \<Rightarrow> nat \<Rightarrow> bool option" where
  "bitset_get b pos =
     (let (major, minor) = bitsetIndex pos
      in if major < length b then Some ((b ! major) AND push_bit minor 1 \<noteq> 0) else None)"

definition popcnt_word :: "64 word \<Rightarrow> 64 word" where
  "popcnt_word v0 =
     (let v1 = (v0 AND 0x5555555555555555) + drop_bit 1 (v0 AND 0xAAAAAAAAAAAAAAAA);
          v2 = (v1 AND 0x3333333333333333) + drop_bit 2 (v1 AND 0xCCCCCCCCCCCCCCCC);
          v3 = (v2 AND 0x0F0F0F0F0F0F0F0F) + drop_bit 4 (v2 AND 0xF0F0F0F0F0F0F0F0);
          v4 = v3 * 0x0101010101010101
      in drop_bit 56 v4 AND 0xFF)"

definition popcnt :: "bitset \<Rightarrow> nat" where
  "popcnt b = foldl (\<lambda>total v. total + unat (popcnt_word v)) 0 b"

definition hash :: "bitset \<Rightarrow> 64 word" where
  "hash b = foldl (\<lambda>h v. h XOR v) (word_of_nat (popcnt b)) b"

definition equals :: "bitset \<Rightarrow> bitset \<Rightarrow> bool" where
  "equals b b2 = (if length b \<noteq> length b2 then False else list_all2 (=) b b2)"

subsection \<open>Models\<close>

record KvInput =
  kvOp :: "8 word"
  kvKey :: string
  kvValue :: string

record KvOutput =
  outValue :: string

text \<open>
  \<open>interface{}\<close> values: nil and the dynamic types that occur. A failed type assertion
  panics.
\<close>

datatype val = VNil | VKvInput KvInput | VKvOutput KvOutput | VString string

record Operation =
  Input :: val
  Call :: int
  Output :: val
  Return :: int

record Event =
  evKind :: bool
  evValue :: val
  evId :: nat

text \<open>A function field may be nil (\<open>None\<close>); \<open>Init\<close> takes no argument.\<close>

record Model =
  Partition :: "(Operation list \<Rightarrow> Operation list list option) option"
  PartitionEvent :: "(Event list \<Rightarrow> Event list list option) option"
  Init :: val
  Step :: "val \<Rightarrow> val \<Rightarrow> val \<Rightarrow> (bool \<times> val) option"
  Equal :: "(val \<Rightarrow> val \<Rightarrow> bool) option"

definition NoPartition :: "Operation list \<Rightarrow> Operation list list option" where
  "NoPartition history = Some [history]"

definition NoPartitionEvent :: "Event list \<Rightarrow> Event list list option" where
  "NoPartitionEvent history = Some [history]"

definition ShallowEqual :: "val \<Rightarrow> val \<Rightarrow> bool" where
  "ShallowEqual state1 state2 = (state1 = state2)"

text \<open>
  The partition of \<open>KvModel\<close> collects the operations of each key in a Go map and returns
  the groups in the map's iteration order, which Go leaves open. The model keeps the keys
  in the order of their first operation.
\<close>

fun mapAppend ::
  "(string \<times> Operation list) list \<Rightarrow> string \<Rightarrow> Operation \<Rightarrow> (string \<times> Operation list) list" where
  "mapAppend [] key v = [(key, [v])]"
| "mapAppend ((k, vs) # m) key v =
     (if k = key then (k, vs @ [v]) # m else (k, vs) # mapAppend m key v)"

fun kvPartitionLoop ::
  "Operation list \<Rightarrow> (string \<times> Operation list) list \<Rightarrow> (string \<times> Operation list) list option" where
  "kvPartitionLoop [] m = Some m"
| "kvPartitionLoop (v # vs) m =
     (case Input v of
        VKvInput inp \<Rightarrow> kvPartitionLoop vs (mapAppend m (kvKey inp) v)
      | _ \<Rightarrow> None)"

definition kvPartition :: "Operation list \<Rightarrow> Operation list list option" where
  "kvPartition history = map_option (map snd) (kvPartitionLoop history [])"

definition kvStep :: "val \<Rightarrow> val \<Rightarrow> val \<Rightarrow> (bool \<times> val) option" where
  "kvStep state0 input output =
     (case input of
        VKvInput inp \<Rightarrow>
          (case output of
             VKvOutput out \<Rightarrow>
               (case state0 of
                  VString st \<Rightarrow>
                    if kvOp inp = 0 then Some (outValue out = st, state0)
                    else if kvOp inp = 1 then Some (True, VString (kvValue inp))
                    else if kvOp inp = 2 then Some (True, VString (st @ kvValue inp))
                    else Some (False, state0)
                | _ \<Rightarrow> None)
           | _ \<Rightarrow> None)
      | _ \<Rightarrow> None)"

definition KvModel :: Model where
  "KvModel = \<lparr>Partition = Some kvPartition, PartitionEvent = None, Init = VString [],
              Step = kvStep, Equal = Some ShallowEqual\<rparr>"

definition fillDefault :: "Model \<Rightarrow> Model" where
  "fillDefault model =
     model\<lparr>Partition := (case Partition model of None \<Rightarrow> Some NoPartition | Some p \<Rightarrow> Some p),
           PartitionEvent := (case PartitionEvent model of
                                None \<Rightarrow> Some NoPartitionEvent | Some p \<Rightarrow> Some p),
           Equal := (case Equal model of None \<Rightarrow> Some ShallowEqual | Some eq \<Rightarrow> Some eq)\<rparr>"

subsection \<open>Entries and the linked list\<close>

record entry =
  e_kind :: bool
  e_value :: val
  e_id :: nat
  e_time :: int

fun makeEntriesLoop :: "Operation list \<Rightarrow> nat \<Rightarrow> entry list \<Rightarrow> entry list" where
  "makeEntriesLoop [] ident entries = entries"
| "makeEntriesLoop (elem # history) ident entries =
     makeEntriesLoop history (ident + 1)
       (entries @ [\<lparr>e_kind = False, e_value = Input elem, e_id = ident, e_time = Call elem\<rparr>,
                   \<lparr>e_kind = True, e_value = Output elem, e_id = ident, e_time = Return elem\<rparr>])"

text \<open>
  \<open>sort.Sort(byTime(entries))\<close> is the standard library's sort by the time stamp. It is
  modelled by insertion sort; on entries with distinct time stamps every sort gives the
  same list.
\<close>

definition makeEntries :: "Operation list \<Rightarrow> entry list" where
  "makeEntries history = sort_key e_time (makeEntriesLoop history 0 [])"

text \<open>
  Nodes live in a store: a pointer is the position of the node in the list of all nodes,
  nil is \<open>None\<close>, and \<open>&node{...}\<close> appends a node. Following nil panics.
\<close>

record node =
  n_value :: val
  n_match :: "nat option"
  n_id :: nat
  n_next :: "nat option"
  n_prev :: "nat option"

type_synonym store = "node list"

definition deref :: "store \<Rightarrow> nat option \<Rightarrow> node option" where
  "deref h p = (case p of None \<Rightarrow> None | Some a \<Rightarrow> if a < length h then Some (h ! a) else None)"

definition assign :: "store \<Rightarrow> nat option \<Rightarrow> (node \<Rightarrow> node) \<Rightarrow> store option" where
  "assign h p f =
     (case p of None \<Rightarrow> None | Some a \<Rightarrow> if a < length h then Some (h[a := f (h ! a)]) else None)"

definition new_node :: "store \<Rightarrow> node \<Rightarrow> store \<times> nat" where
  "new_node h n = (h @ [n], length h)"

definition insertBefore :: "store \<Rightarrow> nat \<Rightarrow> nat option \<Rightarrow> store option" where
  "insertBefore h n mark =
     (case mark of
        None \<Rightarrow> Some h
      | Some m \<Rightarrow> do {
          mk \<leftarrow> deref h mark;
          let beforeMark = n_prev mk;
          h1 \<leftarrow> assign h mark (\<lambda>x. x\<lparr>n_prev := Some n\<rparr>);
          h2 \<leftarrow> assign h1 (Some n) (\<lambda>x. x\<lparr>n_next := mark\<rparr>);
          (case beforeMark of
             None \<Rightarrow> Some h2
           | Some b \<Rightarrow> do {
               h3 \<leftarrow> assign h2 (Some n) (\<lambda>x. x\<lparr>n_prev := beforeMark\<rparr>);
               assign h3 beforeMark (\<lambda>x. x\<lparr>n_next := Some n\<rparr>)
             })
        })"

text \<open>
  \<open>length\<close> follows \<open>next\<close> until nil. A walk of more steps than there are nodes has
  entered a cycle and never ends, which is \<open>None\<close>.
\<close>

fun lengthLoop :: "nat \<Rightarrow> store \<Rightarrow> nat option \<Rightarrow> nat \<Rightarrow> nat option" where
  "lengthLoop fuel h None l = Some l"
| "lengthLoop 0 h (Some a) l = None"
| "lengthLoop (Suc fuel) h (Some a) l =
     (case deref h (Some a) of
        None \<Rightarrow> None
      | Some nd \<Rightarrow> lengthLoop fuel h (n_next nd) (l + 1))"

definition length_nodes :: "store \<Rightarrow> nat option \<Rightarrow> nat option" where
  "length_nodes h n = lengthLoop (length h) h n 0"

text \<open>
  \<open>makeLinkedEntries\<close> walks the entries from the last to the first; the loop of the
  model takes them in that order.
\<close>

fun makeLinkedLoop ::
  "entry list \<Rightarrow> store \<Rightarrow> (nat \<rightharpoonup> nat) \<Rightarrow> nat option \<Rightarrow> (store \<times> nat option) option" where
  "makeLinkedLoop [] h match root = Some (h, root)"
| "makeLinkedLoop (elem # rest) h match root =
     (if e_kind elem then
        (let (h1, a) = new_node h \<lparr>n_value = e_value elem, n_match = None, n_id = e_id elem,
                                    n_next = None, n_prev = None\<rparr>
         in do {
           h2 \<leftarrow> insertBefore h1 a root;
           makeLinkedLoop rest h2 (match(e_id elem \<mapsto> a)) (Some a)
         })
      else
        (let (h1, a) = new_node h \<lparr>n_value = e_value elem, n_match = match (e_id elem),
                                    n_id = e_id elem, n_next = None, n_prev = None\<rparr>
         in do {
           h2 \<leftarrow> insertBefore h1 a root;
           makeLinkedLoop rest h2 match (Some a)
         }))"

definition makeLinkedEntries :: "entry list \<Rightarrow> (store \<times> nat option) option" where
  "makeLinkedEntries entries = makeLinkedLoop (rev entries) [] Map.empty None"

subsection \<open>The search\<close>

record cacheEntry =
  ce_linearized :: bitset
  ce_state :: val

text \<open>
  The loop of \<open>cacheContains\<close>; \<open>model.Equal\<close> is called only for an element whose
  bitset is equal, and calling a nil function panics.
\<close>

fun cacheContainsLoop :: "Model \<Rightarrow> cacheEntry list \<Rightarrow> cacheEntry \<Rightarrow> bool option" where
  "cacheContainsLoop model [] ce = Some False"
| "cacheContainsLoop model (elem # rest) ce =
     (if equals (ce_linearized ce) (ce_linearized elem) then
        (case Equal model of
           None \<Rightarrow> None
         | Some eq \<Rightarrow>
             if eq (ce_state ce) (ce_state elem) then Some True
             else cacheContainsLoop model rest ce)
      else cacheContainsLoop model rest ce)"

definition cacheContains ::
  "Model \<Rightarrow> (64 word \<Rightarrow> cacheEntry list) \<Rightarrow> cacheEntry \<Rightarrow> bool option" where
  "cacheContains model cache ce = cacheContainsLoop model (cache (hash (ce_linearized ce))) ce"

text \<open>Each statement of \<open>lift\<close> and \<open>unlift\<close> reads the nodes as the one before left them.\<close>

definition lift :: "store \<Rightarrow> nat \<Rightarrow> store option" where
  "lift h a = do {
     e \<leftarrow> deref h (Some a);
     h1 \<leftarrow> assign h (n_prev e) (\<lambda>x. x\<lparr>n_next := n_next e\<rparr>);
     e1 \<leftarrow> deref h1 (Some a);
     h2 \<leftarrow> assign h1 (n_next e1) (\<lambda>x. x\<lparr>n_prev := n_prev e1\<rparr>);
     e2 \<leftarrow> deref h2 (Some a);
     m \<leftarrow> deref h2 (n_match e2);
     h3 \<leftarrow> assign h2 (n_prev m) (\<lambda>x. x\<lparr>n_next := n_next m\<rparr>);
     m3 \<leftarrow> deref h3 (n_match e2);
     (case n_next m3 of
        None \<Rightarrow> Some h3
      | Some nx \<Rightarrow> assign h3 (Some nx) (\<lambda>x. x\<lparr>n_prev := n_prev m3\<rparr>))
   }"

definition unlift :: "store \<Rightarrow> nat \<Rightarrow> store option" where
  "unlift h a = do {
     e \<leftarrow> deref h (Some a);
     m \<leftarrow> deref h (n_match e);
     h1 \<leftarrow> assign h (n_prev m) (\<lambda>x. x\<lparr>n_next := n_match e\<rparr>);
     m1 \<leftarrow> deref h1 (n_match e);
     h2 \<leftarrow> (case n_next m1 of
              None \<Rightarrow> Some h1
            | Some nx \<Rightarrow> assign h1 (Some nx) (\<lambda>x. x\<lparr>n_prev := n_match e\<rparr>));
     e2 \<leftarrow> deref h2 (Some a);
     h3 \<leftarrow> assign h2 (n_prev e2) (\<lambda>x. x\<lparr>n_next := Some a\<rparr>);
     e3 \<leftarrow> deref h3 (Some a);
     assign h3 (n_next e3) (\<lambda>x. x\<lparr>n_prev := Some a\<rparr>)
   }"

text \<open>The variables of the loop of \<open>checkSingle\<close>.\<close>

record search =
  s_store :: store
  s_linearized :: bitset
  s_cache :: "64 word \<Rightarrow> cacheEntry list"
  s_calls :: "(nat \<times> val) list"
  s_state :: val
  s_entry :: "nat option"

text \<open>
  The loop of \<open>checkSingle\<close>, with fuel: one unit for each turn, \<open>None\<close> when it runs
  out (and for a panic). \<open>kill\<close> is the value the loop reads from the shared flag.
\<close>

fun checkLoop :: "nat \<Rightarrow> Model \<Rightarrow> int \<Rightarrow> nat \<Rightarrow> search \<Rightarrow> bool option" where
  "checkLoop 0 model kill headEntry s = None"
| "checkLoop (Suc fuel) model kill headEntry s = do {
     hd_node \<leftarrow> deref (s_store s) (Some headEntry);
     if n_next hd_node = None then Some True
     else if kill \<noteq> 0 then Some False
     else do {
       e \<leftarrow> deref (s_store s) (s_entry s);
       a \<leftarrow> s_entry s;
       (case n_match e of
          Some m \<Rightarrow> do {
            matching \<leftarrow> deref (s_store s) (Some m);
            (ok, newState) \<leftarrow> Step model (s_state s) (n_value e) (n_value matching);
            if ok then do {
              newLinearized \<leftarrow> bitset_set (clone (s_linearized s)) (n_id e);
              let newCacheEntry = \<lparr>ce_linearized = newLinearized, ce_state = newState\<rparr>;
              found \<leftarrow> cacheContains model (s_cache s) newCacheEntry;
              if \<not> found then do {
                let h = hash newLinearized;
                let cache1 = (s_cache s)(h := s_cache s h @ [newCacheEntry]);
                let calls1 = s_calls s @ [(a, s_state s)];
                linearized1 \<leftarrow> bitset_set (s_linearized s) (n_id e);
                store1 \<leftarrow> lift (s_store s) a;
                hd1 \<leftarrow> deref store1 (Some headEntry);
                checkLoop fuel model kill headEntry
                  \<lparr>s_store = store1, s_linearized = linearized1, s_cache = cache1,
                    s_calls = calls1, s_state = newState, s_entry = n_next hd1\<rparr>
              }
              else checkLoop fuel model kill headEntry (s\<lparr>s_entry := n_next e\<rparr>)
            }
            else checkLoop fuel model kill headEntry (s\<lparr>s_entry := n_next e\<rparr>)
          }
        | None \<Rightarrow>
            if length (s_calls s) = 0 then Some False
            else do {
              let callsTop = last (s_calls s);
              let a1 = fst callsTop;
              e1 \<leftarrow> deref (s_store s) (Some a1);
              linearized1 \<leftarrow> bitset_clear (s_linearized s) (n_id e1);
              store1 \<leftarrow> unlift (s_store s) a1;
              e2 \<leftarrow> deref store1 (Some a1);
              checkLoop fuel model kill headEntry
                \<lparr>s_store = store1, s_linearized = linearized1, s_cache = s_cache s,
                  s_calls = butlast (s_calls s), s_state = snd callsTop, s_entry = n_next e2\<rparr>
            })
     }
   }"

text \<open>\<open>^uint(0)\<close>, the id of the head node, for a 64-bit \<open>uint\<close>.\<close>

definition max_uint :: nat where
  "max_uint = 18446744073709551615"

definition checkSingle :: "nat \<Rightarrow> Model \<Rightarrow> store \<times> nat option \<Rightarrow> int \<Rightarrow> bool option" where
  "checkSingle fuel model subhistory kill = do {
     let (h, root) = subhistory;
     len \<leftarrow> length_nodes h root;
     let n = len div 2;
     let linearized = newBitset n;
     let (h1, headEntry) = new_node h \<lparr>n_value = VNil, n_match = None, n_id = max_uint,
                                        n_next = None, n_prev = None\<rparr>;
     h2 \<leftarrow> insertBefore h1 headEntry root;
     checkLoop fuel model kill headEntry
       \<lparr>s_store = h2, s_linearized = linearized, s_cache = (\<lambda>h. []), s_calls = [],
         s_state = Init model, s_entry = root\<rparr>
   }"

text \<open>
  \<open>CheckOperations\<close> is \<open>CheckOperationsTimeout\<close> with timeout 0, so no timer runs. It
  starts one worker for each partition and reads their results until one is false or all
  have arrived: the answer is the conjunction of the results. With no partition it waits
  forever for a first result (\<open>None\<close>). The flag \<open>kill\<close> is 0 until a false result has
  been read, and the answer is decided by then, so the workers run with \<open>kill = 0\<close>.
\<close>

definition CheckOperations :: "nat \<Rightarrow> Model \<Rightarrow> Operation list \<Rightarrow> bool option" where
  "CheckOperations fuel model0 history = do {
     let model = fillDefault model0;
     part \<leftarrow> Partition model;
     partitions \<leftarrow> part history;
     results \<leftarrow> those (map (\<lambda>subhistory. do {
                   l \<leftarrow> makeLinkedEntries (makeEntries subhistory);
                   checkSingle fuel model l 0
                 }) partitions);
     if partitions = [] then None else Some (list_all (\<lambda>r. r) results)
   }"

section \<open>Notions used in the statements\<close>

text \<open>
  The count of the commit phase as a predicate: the leader itself and the other peers
  \<open>i\<close> with \<open>matchIndex[i] \<ge> N\<close> are more than \<open>len(peers)/2\<close>.
\<close>

definition majorityMatch :: "'c Raft \<Rightarrow> int \<Rightarrow> bool" where
  "majorityMatch rf N =
     (1 + int (length (filter (\<lambda>i. int i \<noteq> me rf \<and> matchIndex rf ! i \<ge> N) [0..<peers rf]))
        > int (peers rf) div 2)"

text \<open>The term of \<open>rf.log[N-baseIndex]\<close>, the entry the code addresses by the index \<open>N\<close>.\<close>

definition logTermAt :: "'c Raft \<Rightarrow> int \<Rightarrow> int option" where
  "logTermAt rf N =
     (case at (log rf) 0 of
        None \<Rightarrow> None
      | Some first \<Rightarrow> map_option Term (at (log rf) (N - Index first)))"

text \<open>\<open>lastApplied \<le> commitIndex \<le> lastLogIndex\<close>, for a log that has a last entry.\<close>

definition indexInvariant :: "'c Raft \<Rightarrow> bool" where
  "indexInvariant rf =
     (case getLastLogIndex rf of
        None \<Rightarrow> False
      | Some lastIndex \<Rightarrow> lastApplied rf \<le> commitIndex rf \<and> commitIndex rf \<le> lastIndex)"

section \<open>Example states\<close>

text \<open>Concrete replicas, requests and servers at which the theorems below are instantiated.\<close>

definition ent :: "int \<Rightarrow> int \<Rightarrow> 'c LogEntry" where
  "ent i t = \<lparr>Index = i, Term = t, Command = None\<rparr>"

definition replica ::
  "State \<Rightarrow> int \<Rightarrow> int \<Rightarrow> 'c LogEntry list \<Rightarrow> int \<Rightarrow> int \<Rightarrow> int list \<Rightarrow> 'c Raft" where
  "replica st term voted lg commit applied mi =
     \<lparr>peers = 3, persister = \<lparr>raftstate = None, snapshot = []\<rparr>, me = 0, state = st,
      voteCount = 0, currentTerm = term, votedFor = voted, log = lg, commitIndex = commit,
      lastApplied = applied, nextIndex = [0, 0, 0], matchIndex = mi, chanApply = [],
      chanGrantVote = [], chanWinElect = [], chanHeartbeat = []\<rparr>"

definition kvserver :: "Op Raft \<Rightarrow> (string \<rightharpoonup> string) \<Rightarrow> (int \<rightharpoonup> int) \<Rightarrow> KVServer" where
  "kvserver r d a =
     \<lparr>kv_rf = r, kv_maxraftstate = -1, kv_data = d, kv_ack = a, kv_resultCh = Map.empty\<rparr>"

definition mkOp :: "string \<Rightarrow> int \<Rightarrow> int \<Rightarrow> string \<Rightarrow> string \<Rightarrow> Op" where
  "mkOp c cid rid k v =
     \<lparr>opCommand = c, opClientId = cid, opRequestId = rid, opKey = k, opValue = v\<rparr>"

text \<open>
  A put and a get of one key as operations of a history, and the linked list that
  \<open>makeLinkedEntries\<close> builds for a put that returns before the get is called (the nodes
  are made from the last entry to the first, so the first call is node 3).
\<close>

definition putOp :: "string \<Rightarrow> string \<Rightarrow> int \<Rightarrow> KvOutput \<Rightarrow> int \<Rightarrow> Operation" where
  "putOp k v c out r = \<lparr>Input = VKvInput \<lparr>kvOp = 1, kvKey = k, kvValue = v\<rparr>, Call = c,
                         Output = VKvOutput out, Return = r\<rparr>"

definition getOp :: "string \<Rightarrow> int \<Rightarrow> string \<Rightarrow> int \<Rightarrow> Operation" where
  "getOp k c v r = \<lparr>Input = VKvInput \<lparr>kvOp = 0, kvKey = k, kvValue = []\<rparr>, Call = c,
                     Output = VKvOutput \<lparr>outValue = v\<rparr>, Return = r\<rparr>"

definition linkedPutGet :: "string \<Rightarrow> string \<Rightarrow> string \<Rightarrow> KvOutput \<Rightarrow> store" where
  "linkedPutGet k v1 v2 out =
   [\<lparr>n_value = VKvOutput \<lparr>outValue = v1\<rparr>, n_match = None, n_id = 1,
       n_next = None, n_prev = Some 1\<rparr>,
    \<lparr>n_value = VKvInput \<lparr>kvOp = 0, kvKey = k, kvValue = []\<rparr>,
       n_match = Some 0, n_id = 1, n_next = Some 0, n_prev = Some 2\<rparr>,
    \<lparr>n_value = VKvOutput out, n_match = None, n_id = 0,
       n_next = Some 1, n_prev = Some 3\<rparr>,
    \<lparr>n_value = VKvInput \<lparr>kvOp = 1, kvKey = k, kvValue = v2\<rparr>,
       n_match = Some 2, n_id = 0, n_next = Some 2, n_prev = None\<rparr>]"

section \<open>Properties of the consensus replica\<close>

lemma getLastLogIndex_Some:
  "log rf \<noteq> [] \<Longrightarrow> getLastLogIndex rf = Some (Index (last (log rf)))"
  by (simp add: getLastLogIndex_def at_def last_conv_nth nat_diff_distrib')

lemma getLastLogTerm_Some:
  "log rf \<noteq> [] \<Longrightarrow> getLastLogTerm rf = Some (Term (last (log rf)))"
  by (simp add: getLastLogTerm_def at_def last_conv_nth nat_diff_distrib')

subsection \<open>Start\<close>

text \<open>
  Claim C10. On a replica that is not the leader, \<open>Start\<close> returns index \<open>-1\<close>, term
  \<open>-1\<close> and \<open>isLeader = false\<close> and returns the replica as it was (log, term, vote,
  commit index and persister included). On a leader (whose log has a last entry) it
  returns \<open>lastLogIndex + 1\<close> and \<open>currentTerm\<close>, and the only changes are the one entry
  with that index and term appended to the log and the raft state persisted.
\<close>

theorem Start_spec:
  "(state rf \<noteq> STATE_LEADER \<longrightarrow> Start rf command = Some (rf, -1, -1, False)) \<and>
   (state rf = STATE_LEADER \<and> log rf \<noteq> [] \<longrightarrow>
      Start rf command =
        Some (rf\<lparr>log := log rf @ [\<lparr>Index = Index (last (log rf)) + 1, Term = currentTerm rf,
                                     Command = command\<rparr>],
                 persister := SaveRaftState (persister rf)
                   (RaftStateBlob (currentTerm rf) (votedFor rf)
                      (log rf @ [\<lparr>Index = Index (last (log rf)) + 1, Term = currentTerm rf,
                                  Command = command\<rparr>]))\<rparr>,
              Index (last (log rf)) + 1, currentTerm rf, True))"
  by (simp add: Start_def getLastLogIndex_Some persist_def getRaftState_def Let_def)

theorem Start_spec_witness:
  "state (replica STATE_FOLLOWER 2 (-1) [ent 0 0, ent 1 1] 1 1 [0, 0, 0] :: nat Raft) \<noteq> STATE_LEADER \<and>
   Start (replica STATE_FOLLOWER 2 (-1) [ent 0 0, ent 1 1] 1 1 [0, 0, 0] :: nat Raft) (Some 7) =
     Some (replica STATE_FOLLOWER 2 (-1) [ent 0 0, ent 1 1] 1 1 [0, 0, 0], -1, -1, False) \<and>
   state (replica STATE_LEADER 2 0 [ent 0 0, ent 1 1] 1 1 [0, 0, 0] :: nat Raft) = STATE_LEADER \<and>
   log (replica STATE_LEADER 2 0 [ent 0 0, ent 1 1] 1 1 [0, 0, 0] :: nat Raft) \<noteq> [] \<and>
   map_option (\<lambda>(rf', index, term, isLeader). (log rf', index, term, isLeader))
     (Start (replica STATE_LEADER 2 0 [ent 0 0, ent 1 1] 1 1 [0, 0, 0] :: nat Raft) (Some 7)) =
     Some ([ent 0 0, ent 1 1, \<lparr>Index = 2, Term = 2, Command = Some 7\<rparr>], 2, 2, True)"
  using Start_spec [of "replica STATE_FOLLOWER 2 (-1) [ent 0 0, ent 1 1] 1 1 [0, 0, 0] :: nat Raft" "Some 7"]
        Start_spec [of "replica STATE_LEADER 2 0 [ent 0 0, ent 1 1] 1 1 [0, 0, 0] :: nat Raft" "Some 7"]
  by (auto simp add: replica_def ent_def)

subsection \<open>RequestVote\<close>

text \<open>
  Claim C5. For a request whose term is not stale, with \<open>votedFor\<close> read after the
  step-down that a larger term causes, the vote is granted exactly when \<open>votedFor\<close> is
  none (\<open>-1\<close>) or the candidate and the candidate's last log term is larger than ours,
  or equal with a last log index at least ours; on a grant \<open>votedFor\<close> becomes the
  candidate.
\<close>

theorem RequestVote_grant:
  assumes "rvTerm args \<ge> currentTerm rf" and "log rf \<noteq> []"
  shows "\<exists>rf' reply'. RequestVote rf args reply = Some (rf', reply') \<and>
     (VoteGranted reply' \<longleftrightarrow>
        ((if rvTerm args > currentTerm rf then -1 else votedFor rf) = -1 \<or>
         (if rvTerm args > currentTerm rf then -1 else votedFor rf) = CandidateId args) \<and>
        (LastLogTerm args > Term (last (log rf)) \<or>
         (LastLogTerm args = Term (last (log rf)) \<and>
          LastLogIndex args \<ge> Index (last (log rf))))) \<and>
     (VoteGranted reply' \<longrightarrow> votedFor rf' = CandidateId args)"
  using assms
  by (auto simp add: RequestVote_def isUpToDate_def getLastLogIndex_Some getLastLogTerm_Some
      persist_def Let_def split: bool.splits)

theorem RequestVote_grant_witness:
  "currentTerm (replica STATE_FOLLOWER 2 (-1) [ent 0 0, ent 1 1] 1 1 [0, 0, 0] :: nat Raft) \<le> 3 \<and>
   log (replica STATE_FOLLOWER 2 (-1) [ent 0 0, ent 1 1] 1 1 [0, 0, 0] :: nat Raft) \<noteq> [] \<and>
   (\<exists>rf' reply'.
      RequestVote (replica STATE_FOLLOWER 2 (-1) [ent 0 0, ent 1 1] 1 1 [0, 0, 0] :: nat Raft)
        \<lparr>rvTerm = 3, CandidateId = 1, LastLogIndex = 1, LastLogTerm = 1\<rparr>
        \<lparr>rvrTerm = 0, VoteGranted = False\<rparr> = Some (rf', reply') \<and>
      VoteGranted reply' \<and> votedFor rf' = 1)"
  using RequestVote_grant [of "replica STATE_FOLLOWER 2 (-1) [ent 0 0, ent 1 1] 1 1 [0, 0, 0] :: nat Raft"
          "\<lparr>rvTerm = 3, CandidateId = 1, LastLogIndex = 1, LastLogTerm = 1\<rparr>"
          "\<lparr>rvrTerm = 0, VoteGranted = False\<rparr>"]
  by (auto simp add: replica_def ent_def)

subsection \<open>InstallSnapshot\<close>

lemma trimLoop_none:
  "\<forall>i<k. \<not> (Index (lg ! i) = a \<and> Term (lg ! i) = b) \<Longrightarrow> trimLoop lg a b k new = new"
  by (induction k) auto

lemma trimLoop_found:
  "i < k \<Longrightarrow> Index (lg ! i) = a \<and> Term (lg ! i) = b \<Longrightarrow>
   \<forall>j. i < j \<and> j < k \<longrightarrow> \<not> (Index (lg ! j) = a \<and> Term (lg ! j) = b) \<Longrightarrow>
   trimLoop lg a b k new = new @ drop (Suc i) lg"
proof (induction k)
  case 0
  then show ?case by simp
next
  case (Suc k)
  show ?case
  proof (cases "i = k")
    case True
    then have "Index (lg ! k) = a \<and> Term (lg ! k) = b" using Suc.prems(2) by simp
    then show ?thesis using True by simp
  next
    case False
    with Suc.prems(1) have ik: "i < k" by simp
    have nk: "\<not> (Index (lg ! k) = a \<and> Term (lg ! k) = b)"
      using Suc.prems(3) [rule_format, of k] ik by simp
    have "\<forall>j. i < j \<and> j < k \<longrightarrow> \<not> (Index (lg ! j) = a \<and> Term (lg ! j) = b)"
      using Suc.prems(3) by simp
    with Suc.IH ik Suc.prems(2) have "trimLoop lg a b k new = new @ drop (Suc i) lg"
      by blast
    with nk show ?thesis by auto
  qed
qed

lemma trimLoop_split:
  assumes "lg = pre @ e # suf" and "Index e = a" and "Term e = b"
    and "\<forall>x\<in>set suf. \<not> (Index x = a \<and> Term x = b)"
  shows "trimLoop lg a b (length lg) new = new @ suf"
proof -
  have "trimLoop lg a b (length lg) new = new @ drop (Suc (length pre)) lg"
  proof (rule trimLoop_found)
    show "length pre < length lg" using assms(1) by simp
    show "Index (lg ! length pre) = a \<and> Term (lg ! length pre) = b"
      using assms(1-3) by simp
    show "\<forall>j. length pre < j \<and> j < length lg \<longrightarrow>
            \<not> (Index (lg ! j) = a \<and> Term (lg ! j) = b)"
    proof (intro allI impI)
      fix j assume j: "length pre < j \<and> j < length lg"
      then have "lg ! j = suf ! (j - Suc (length pre))"
        using assms(1) by (simp add: nth_append nth_Cons')
      moreover from j assms(1) have "j - Suc (length pre) < length suf" by auto
      ultimately have "lg ! j \<in> set suf" by simp
      with assms(4) show "\<not> (Index (lg ! j) = a \<and> Term (lg ! j) = b)" by blast
    qed
  qed
  with assms(1) show ?thesis by simp
qed

lemma trimLoop_absent:
  assumes "\<forall>x\<in>set lg. \<not> (Index x = a \<and> Term x = b)"
  shows "trimLoop lg a b (length lg) new = new"
  using assms by (intro trimLoop_none) auto

text \<open>
  Claim C6. For a request whose term is not stale and whose \<open>lastIncludedIndex\<close> is
  above \<open>commitIndex\<close>: the new log is the placeholder \<open>(lastIncludedIndex,
  lastIncludedTerm)\<close> followed by the entries after the log entry that matches both
  that index and that term (by nothing when no entry matches); \<open>lastApplied\<close> and
  \<open>commitIndex\<close> become \<open>lastIncludedIndex\<close>; and the persister is the result of the
  one combined \<open>SaveStateAndSnapshot\<close> of the new raft state and the snapshot. When
  \<open>lastIncludedIndex \<le> commitIndex\<close>, log, \<open>commitIndex\<close> and \<open>lastApplied\<close> are
  unchanged.
\<close>

theorem InstallSnapshot_spec:
  assumes "isTerm args \<ge> currentTerm rf"
  shows "(LastIncludedIndex args > commitIndex rf \<longrightarrow>
           (\<forall>pre e suf.
              log rf = pre @ e # suf \<and> Index e = LastIncludedIndex args \<and>
              Term e = LastIncludedTerm args \<and>
              (\<forall>x\<in>set suf. \<not> (Index x = LastIncludedIndex args \<and>
                               Term x = LastIncludedTerm args)) \<longrightarrow>
              log (fst (InstallSnapshot rf args reply)) =
                \<lparr>Index = LastIncludedIndex args, Term = LastIncludedTerm args,
                  Command = None\<rparr> # suf) \<and>
           ((\<forall>x\<in>set (log rf). \<not> (Index x = LastIncludedIndex args \<and>
                                  Term x = LastIncludedTerm args)) \<longrightarrow>
              log (fst (InstallSnapshot rf args reply)) =
                [\<lparr>Index = LastIncludedIndex args, Term = LastIncludedTerm args,
                   Command = None\<rparr>]) \<and>
           lastApplied (fst (InstallSnapshot rf args reply)) = LastIncludedIndex args \<and>
           commitIndex (fst (InstallSnapshot rf args reply)) = LastIncludedIndex args \<and>
           persister (fst (InstallSnapshot rf args reply)) =
             SaveStateAndSnapshot (persister rf)
               (getRaftState (fst (InstallSnapshot rf args reply))) (Data args)) \<and>
         (LastIncludedIndex args \<le> commitIndex rf \<longrightarrow>
            log (fst (InstallSnapshot rf args reply)) = log rf \<and>
            commitIndex (fst (InstallSnapshot rf args reply)) = commitIndex rf \<and>
            lastApplied (fst (InstallSnapshot rf args reply)) = lastApplied rf)"
proof -
  let ?rf' = "fst (InstallSnapshot rf args reply)"
  let ?ph = "\<lparr>Index = LastIncludedIndex args, Term = LastIncludedTerm args,
              Command = None\<rparr> :: 'a LogEntry"
  have lg: "log ?rf' = trimLoop (log rf) (LastIncludedIndex args) (LastIncludedTerm args)
                         (length (log rf)) [?ph]"
    if "LastIncludedIndex args > commitIndex rf"
    using assms that by (simp add: InstallSnapshot_def Let_def trimLog_def persist_def)
  have found: "log ?rf' = ?ph # suf"
    if "LastIncludedIndex args > commitIndex rf"
      and "log rf = pre @ e # suf \<and> Index e = LastIncludedIndex args \<and>
           Term e = LastIncludedTerm args \<and>
           (\<forall>x\<in>set suf. \<not> (Index x = LastIncludedIndex args \<and>
                            Term x = LastIncludedTerm args))"
    for pre e suf
    using lg [OF that(1)] trimLoop_split [of "log rf" pre e suf] that(2) by simp
  have absent: "log ?rf' = [?ph]"
    if "LastIncludedIndex args > commitIndex rf"
      and "\<forall>x\<in>set (log rf). \<not> (Index x = LastIncludedIndex args \<and>
                                Term x = LastIncludedTerm args)"
    using lg [OF that(1)] trimLoop_absent [OF that(2)] by simp
  have rest: "lastApplied ?rf' = LastIncludedIndex args \<and>
              commitIndex ?rf' = LastIncludedIndex args \<and>
              persister ?rf' = SaveStateAndSnapshot (persister rf) (getRaftState ?rf') (Data args)"
    if "LastIncludedIndex args > commitIndex rf"
    using assms that
    by (simp add: InstallSnapshot_def Let_def trimLog_def persist_def
          SaveStateAndSnapshot_def SaveRaftState_def getRaftState_def)
  have unchanged: "log ?rf' = log rf \<and> commitIndex ?rf' = commitIndex rf \<and>
                   lastApplied ?rf' = lastApplied rf"
    if "LastIncludedIndex args \<le> commitIndex rf"
    using that by (simp add: InstallSnapshot_def Let_def persist_def)
  from found absent rest unchanged show ?thesis by blast
qed

theorem InstallSnapshot_spec_witness:
  "currentTerm (replica STATE_FOLLOWER 2 (-1) [ent 0 0, ent 1 1, ent 2 1, ent 3 2] 1 1 [0, 0, 0] :: nat Raft) \<le> 2 \<and>
   commitIndex (replica STATE_FOLLOWER 2 (-1) [ent 0 0, ent 1 1, ent 2 1, ent 3 2] 1 1 [0, 0, 0] :: nat Raft) < 2 \<and>
   log (fst (InstallSnapshot (replica STATE_FOLLOWER 2 (-1) [ent 0 0, ent 1 1, ent 2 1, ent 3 2] 1 1 [0, 0, 0] :: nat Raft)
          \<lparr>isTerm = 2, isLeaderId = 1, LastIncludedIndex = 2, LastIncludedTerm = 1, Data = [1, 2]\<rparr>
          \<lparr>isrTerm = 0\<rparr>)) = [ent 2 1, ent 3 2] \<and>
   commitIndex (fst (InstallSnapshot (replica STATE_FOLLOWER 2 (-1) [ent 0 0, ent 1 1, ent 2 1, ent 3 2] 1 1 [0, 0, 0] :: nat Raft)
          \<lparr>isTerm = 2, isLeaderId = 1, LastIncludedIndex = 2, LastIncludedTerm = 1, Data = [1, 2]\<rparr>
          \<lparr>isrTerm = 0\<rparr>)) = 2 \<and>
   log (fst (InstallSnapshot (replica STATE_FOLLOWER 2 (-1) [ent 0 0, ent 1 1, ent 2 1, ent 3 2] 1 1 [0, 0, 0] :: nat Raft)
          \<lparr>isTerm = 2, isLeaderId = 1, LastIncludedIndex = 1, LastIncludedTerm = 1, Data = [1, 2]\<rparr>
          \<lparr>isrTerm = 0\<rparr>)) = [ent 0 0, ent 1 1, ent 2 1, ent 3 2]"
proof -
  let ?rf = "replica STATE_FOLLOWER 2 (-1) [ent 0 0, ent 1 1, ent 2 1, ent 3 2] 1 1 [0, 0, 0] :: nat Raft"
  let ?a2 = "\<lparr>isTerm = 2, isLeaderId = 1, LastIncludedIndex = 2, LastIncludedTerm = 1, Data = [1, 2]\<rparr>"
  let ?a1 = "\<lparr>isTerm = 2, isLeaderId = 1, LastIncludedIndex = 1, LastIncludedTerm = 1, Data = [1, 2]\<rparr>"
  have t2: "currentTerm ?rf \<le> isTerm ?a2" and t1: "currentTerm ?rf \<le> isTerm ?a1"
    by (simp_all add: replica_def)
  have gt: "commitIndex ?rf < LastIncludedIndex ?a2" and le: "LastIncludedIndex ?a1 \<le> commitIndex ?rf"
    by (simp_all add: replica_def)
  have d: "log ?rf = [ent 0 0, ent 1 1] @ ent 2 1 # [ent 3 2] \<and>
           Index (ent 2 1 :: nat LogEntry) = LastIncludedIndex ?a2 \<and>
           Term (ent 2 1 :: nat LogEntry) = LastIncludedTerm ?a2 \<and>
           (\<forall>x\<in>set [ent 3 2 :: nat LogEntry]. \<not> (Index x = LastIncludedIndex ?a2 \<and>
                               Term x = LastIncludedTerm ?a2))"
    by (simp add: replica_def ent_def)
  note th2 = InstallSnapshot_spec [OF t2, of "\<lparr>isrTerm = 0\<rparr>", THEN conjunct1, rule_format, OF gt]
  note th1 = InstallSnapshot_spec [OF t1, of "\<lparr>isrTerm = 0\<rparr>", THEN conjunct2, rule_format, OF le]
  from th2 [THEN conjunct1, rule_format, OF d]
  have a: "log (fst (InstallSnapshot ?rf ?a2 \<lparr>isrTerm = 0\<rparr>)) = [ent 2 1, ent 3 2]"
    by (simp add: ent_def)
  from th2 have c: "commitIndex (fst (InstallSnapshot ?rf ?a2 \<lparr>isrTerm = 0\<rparr>)) = 2"
    by simp
  from th1 have b: "log (fst (InstallSnapshot ?rf ?a1 \<lparr>isrTerm = 0\<rparr>)) =
      [ent 0 0, ent 1 1, ent 2 1, ent 3 2]"
    by (simp add: replica_def)
  from a b c show ?thesis by (simp add: replica_def)
qed

subsection \<open>AppendEntries\<close>

lemma conflictLoop_none:
  assumes "\<forall>k. b \<le> k \<and> k \<le> i \<longrightarrow> (\<exists>e. at lg (k - b) = Some e \<and> Term e = t)"
  shows "conflictLoop lg b t i reply = Some reply"
  using assms
proof (induction lg b t i reply rule: conflictLoop.induct)
  case (1 lg b t i reply)
  show ?case
  proof (cases "i \<ge> b")
    case False
    then show ?thesis by (simp add: conflictLoop.simps [of lg b t i])
  next
    case True
    with "1.prems" obtain e where e: "at lg (i - b) = Some e" "Term e = t" by auto
    from "1.prems" have "\<forall>k. b \<le> k \<and> k \<le> i - 1 \<longrightarrow> (\<exists>e. at lg (k - b) = Some e \<and> Term e = t)"
      by simp
    with "1.IH" [OF True e(1)] e(2) have "conflictLoop lg b t (i - 1) reply = Some reply"
      by simp
    with True e show ?thesis by (simp add: conflictLoop.simps [of lg b t i])
  qed
qed

lemma conflictLoop_found:
  assumes "b \<le> j" and "j \<le> i" and "at lg (j - b) = Some e" and "Term e \<noteq> t"
    and "\<forall>k. j < k \<and> k \<le> i \<longrightarrow> (\<exists>e'. at lg (k - b) = Some e' \<and> Term e' = t)"
  shows "conflictLoop lg b t i reply = Some (reply\<lparr>NextTryIndex := j + 1\<rparr>)"
  using assms
proof (induction lg b t i reply rule: conflictLoop.induct)
  case (1 lg b t i reply)
  from "1.prems" have ib: "i \<ge> b" by simp
  show ?case
  proof (cases "i = j")
    case True
    with "1.prems" ib show ?thesis by (subst conflictLoop.simps) simp
  next
    case False
    with "1.prems" have ji: "j < i" by simp
    with "1.prems" obtain e' where e': "at lg (i - b) = Some e'" "Term e' = t" by auto
    from "1.prems" have "\<forall>k. j < k \<and> k \<le> i - 1 \<longrightarrow> (\<exists>e'. at lg (k - b) = Some e' \<and> Term e' = t)"
      by simp
    with "1.IH" [OF ib e'(1)] e'(2) "1.prems" ji
    have "conflictLoop lg b t (i - 1) reply = Some (reply\<lparr>NextTryIndex := j + 1\<rparr>)"
      by simp
    with ib e' show ?thesis by (simp add: conflictLoop.simps [of lg b t i])
  qed
qed

lemma at_0_hd: "xs \<noteq> [] \<Longrightarrow> at xs 0 = Some (hd xs)"
  by (cases xs) (simp_all add: at_def)

lemma AppendEntries_runs_conflictLoop:
  assumes "aeTerm args \<ge> currentTerm rf" and "log rf \<noteq> []"
    and "PrevLogIndex args \<le> Index (last (log rf))"
    and "PrevLogIndex args \<ge> Index (hd (log rf))"
    and "at (log rf) (PrevLogIndex args - Index (hd (log rf))) = Some e"
    and "Term e \<noteq> PrevLogTerm args"
  shows "map_option snd (AppendEntries rf args reply) =
           conflictLoop (log rf) (Index (hd (log rf))) (Term e) (PrevLogIndex args - 1)
             (reply\<lparr>Success := False, aerTerm := aeTerm args\<rparr>)"
proof -
  let ?b = "Index (hd (log rf))"
  let ?r = "reply\<lparr>Success := False, aerTerm := aeTerm args\<rparr>"
  let ?c = "conflictLoop (log rf) ?b (Term e) (PrevLogIndex args - 1) ?r"
  have nlt: "\<not> aeTerm args < currentTerm rf" and npl: "\<not> PrevLogIndex args > Index (last (log rf))"
    using assms by simp_all
  show ?thesis
  proof (cases "aeTerm args > currentTerm rf")
    case True
    with assms nlt npl show ?thesis
      by (cases ?c) (simp_all add: AppendEntries_def Let_def getLastLogIndex_Some at_0_hd)
  next
    case False
    with assms(1) have eq: "currentTerm rf = aeTerm args" by simp
    from assms False nlt npl show ?thesis
      by (cases ?c) (simp_all add: AppendEntries_def Let_def getLastLogIndex_Some at_0_hd eq)
  qed
qed

lemma AppendEntries_NextTryIndex_found:
  assumes "aeTerm args \<ge> currentTerm rf" and "log rf \<noteq> []"
    and "PrevLogIndex args \<le> Index (last (log rf))"
    and "PrevLogIndex args \<ge> Index (hd (log rf))"
    and "at (log rf) (PrevLogIndex args - Index (hd (log rf))) = Some e"
    and "Term e \<noteq> PrevLogTerm args"
    and "Index (hd (log rf)) \<le> j" and "j < PrevLogIndex args"
    and "at (log rf) (j - Index (hd (log rf))) = Some e'" and "Term e' \<noteq> Term e"
    and "\<forall>k. j < k \<and> k < PrevLogIndex args \<longrightarrow>
           (\<exists>x. at (log rf) (k - Index (hd (log rf))) = Some x \<and> Term x = Term e)"
  shows "map_option snd (AppendEntries rf args reply) =
           Some (reply\<lparr>Success := False, aerTerm := aeTerm args, NextTryIndex := j + 1\<rparr>)"
proof -
  have "conflictLoop (log rf) (Index (hd (log rf))) (Term e) (PrevLogIndex args - 1)
          (reply\<lparr>Success := False, aerTerm := aeTerm args\<rparr>) =
        Some (reply\<lparr>Success := False, aerTerm := aeTerm args, NextTryIndex := j + 1\<rparr>)"
    using assms(7-11) by (intro conflictLoop_found [where e = e']) auto
  with AppendEntries_runs_conflictLoop [OF assms(1-6)] show ?thesis by simp
qed

lemma AppendEntries_NextTryIndex_kept:
  assumes "aeTerm args \<ge> currentTerm rf" and "log rf \<noteq> []"
    and "PrevLogIndex args \<le> Index (last (log rf))"
    and "PrevLogIndex args \<ge> Index (hd (log rf))"
    and "at (log rf) (PrevLogIndex args - Index (hd (log rf))) = Some e"
    and "Term e \<noteq> PrevLogTerm args"
    and "\<forall>k. Index (hd (log rf)) \<le> k \<and> k < PrevLogIndex args \<longrightarrow>
           (\<exists>x. at (log rf) (k - Index (hd (log rf))) = Some x \<and> Term x = Term e)"
  shows "map_option snd (AppendEntries rf args reply) =
           Some (reply\<lparr>Success := False, aerTerm := aeTerm args\<rparr>)"
proof -
  have "conflictLoop (log rf) (Index (hd (log rf))) (Term e) (PrevLogIndex args - 1)
          (reply\<lparr>Success := False, aerTerm := aeTerm args\<rparr>) =
        Some (reply\<lparr>Success := False, aerTerm := aeTerm args\<rparr>)"
    using assms(7) by (intro conflictLoop_none) auto
  with AppendEntries_runs_conflictLoop [OF assms(1-6)] show ?thesis by simp
qed

text \<open>
  Claim C2, evaluated at a failing input. The claim has the receiver answer a term conflict
  at \<open>prevLogIndex\<close> with \<open>nextTryIndex = baseIndex\<close> when every entry from
  \<open>baseIndex\<close> through \<open>prevLogIndex\<close> has the conflicting term. The loop assigns
  \<open>NextTryIndex\<close> only where it finds an entry of another term. With the log
  \<open>[(5, term 2), (6, term 2)]\<close> (so \<open>baseIndex = 5\<close>) and a request with
  \<open>prevLogIndex = 6\<close>, \<open>prevLogTerm = 3\<close>, the reply keeps the \<open>NextTryIndex = 0\<close> it
  came with.
\<close>

theorem AppendEntries_conflict_unset:
  "map_option snd
     (AppendEntries (replica STATE_FOLLOWER 3 (-1) [ent 5 2, ent 6 2] 5 5 [0, 0, 0] :: nat Raft)
        \<lparr>aeTerm = 3, LeaderId = 1, PrevLogIndex = 6, PrevLogTerm = 3, Entries = [],
          LeaderCommit = 5\<rparr>
        \<lparr>aerTerm = 0, Success = False, NextTryIndex = 0\<rparr>) =
   Some \<lparr>aerTerm = 3, Success = False, NextTryIndex = 0\<rparr>"
  by (simp add: AppendEntries_def replica_def ent_def at_def getLastLogIndex_def
        conflictLoop.simps Let_def)

text \<open>
  Claim C3, evaluated at a failing input. A replica with entries 0 to 3, all applied and
  committed, receives a delayed heartbeat of its leader's term with \<open>prevLogIndex = 1\<close>
  and no entries. The handler cuts the log after index 1 and succeeds: afterwards
  \<open>commitIndex = 3\<close> and the last log index is 1.
\<close>

theorem AppendEntries_breaks_indexInvariant:
  "indexInvariant (replica STATE_FOLLOWER 1 1 [ent 0 0, ent 1 1, ent 2 1, ent 3 1] 3 3 [0, 0, 0]
                     :: nat Raft) \<and>
   map_option (\<lambda>(rf', reply'). (Success reply', lastApplied rf', commitIndex rf',
                                  getLastLogIndex rf', indexInvariant rf'))
     (AppendEntries (replica STATE_FOLLOWER 1 1 [ent 0 0, ent 1 1, ent 2 1, ent 3 1] 3 3 [0, 0, 0]
                       :: nat Raft)
        \<lparr>aeTerm = 1, LeaderId = 1, PrevLogIndex = 1, PrevLogTerm = 1, Entries = [],
          LeaderCommit = 1\<rparr>
        \<lparr>aerTerm = 0, Success = False, NextTryIndex = 0\<rparr>) =
   Some (True, 3, 3, Some 1, False)"
  by (simp add: AppendEntries_def replica_def ent_def at_def getLastLogIndex_def slice_to_def
        indexInvariant_def persist_def Let_def)

lemma AppendEntries_lowers_commitIndex:
  "map_option (\<lambda>(rf', reply'). (Success reply', lastApplied rf', commitIndex rf',
                                  getLastLogIndex rf'))
     (AppendEntries (replica STATE_FOLLOWER 1 1 [ent 0 0, ent 1 1, ent 2 1, ent 3 1] 3 3 [0, 0, 0]
                       :: nat Raft)
        \<lparr>aeTerm = 1, LeaderId = 1, PrevLogIndex = 1, PrevLogTerm = 1, Entries = [],
          LeaderCommit = 5\<rparr>
        \<lparr>aerTerm = 0, Success = False, NextTryIndex = 0\<rparr>) =
   Some (True, 3, 1, Some 1)"
  by (simp add: AppendEntries_def replica_def ent_def at_def getLastLogIndex_def slice_to_def
        persist_def Let_def min_int_def)

subsection \<open>The commit phase of the leader\<close>

lemma countLoop_eq:
  "countLoop mi m N js c = Some c' \<Longrightarrow>
   c' = c + int (length (filter (\<lambda>i. int i \<noteq> m \<and> mi ! i \<ge> N) js))"
proof (induction js arbitrary: c)
  case Nil
  then show ?case by simp
next
  case (Cons j js)
  from Cons.prems Cons.IH [of "c + 1"] Cons.IH [of c] show ?case
    by (auto simp add: at_def split: if_splits option.splits)
qed

lemma commitLoop_spec:
  "commitLoop rf b N = Some rf' \<Longrightarrow>
   rf' = rf \<or>
   (\<exists>M. rf' = rf\<lparr>commitIndex := M\<rparr> \<and> commitIndex rf < M \<and> M \<le> N \<and>
        (\<exists>e. at (log rf) (M - b) = Some e \<and> Term e = currentTerm rf) \<and>
        majorityMatch rf M \<and>
        (\<forall>M'. M < M' \<and> M' \<le> N \<longrightarrow> \<not> majorityMatch rf M'))"
proof (induction rf b N rule: commitLoop.induct)
  case (1 rf b N)
  note unf = commitLoop.simps [of rf b N]
  show ?case
  proof (cases "N > commitIndex rf")
    case False
    with "1.prems" show ?thesis by (simp add: unf)
  next
    case True
    note gt = this
    show ?thesis
    proof (cases "at (log rf) (N - b)")
      case None
      with "1.prems" gt show ?thesis by (simp add: unf)
    next
      case (Some e)
      note e = this
      show ?thesis
      proof (cases "Term e = currentTerm rf")
        case False
        with "1.prems" gt e show ?thesis by (simp add: unf)
      next
        case True
        note te = this
        show ?thesis
        proof (cases "countLoop (matchIndex rf) (me rf) N [0..<peers rf] 1")
          case None
          with "1.prems" gt e te show ?thesis by (simp add: unf)
        next
          case (Some count)
          note c = this
          from countLoop_eq [OF c]
          have maj: "majorityMatch rf N \<longleftrightarrow> count > int (peers rf) div 2"
            by (simp add: majorityMatch_def)
          show ?thesis
          proof (cases "count > int (peers rf) div 2")
            case True
            with "1.prems" gt e te c have "rf' = rf\<lparr>commitIndex := N\<rparr>" by (simp add: unf)
            with gt e te maj True show ?thesis by auto
          next
            case False
            with "1.prems" gt e te c have "commitLoop rf b (N - 1) = Some rf'" by (simp add: unf)
            from "1.IH" [OF gt e te c False this]
            show ?thesis
            proof
              assume "rf' = rf" then show ?thesis by simp
            next
              assume "\<exists>M. rf' = rf\<lparr>commitIndex := M\<rparr> \<and> commitIndex rf < M \<and> M \<le> N - 1 \<and>
                (\<exists>e. at (log rf) (M - b) = Some e \<and> Term e = currentTerm rf) \<and>
                majorityMatch rf M \<and>
                (\<forall>M'. M < M' \<and> M' \<le> N - 1 \<longrightarrow> \<not> majorityMatch rf M')"
              then obtain M where M: "rf' = rf\<lparr>commitIndex := M\<rparr>" "commitIndex rf < M"
                "M \<le> N - 1" "\<exists>e. at (log rf) (M - b) = Some e \<and> Term e = currentTerm rf"
                "majorityMatch rf M" "\<forall>M'. M < M' \<and> M' \<le> N - 1 \<longrightarrow> \<not> majorityMatch rf M'"
                by blast
              have "\<forall>M'. M < M' \<and> M' \<le> N \<longrightarrow> \<not> majorityMatch rf M'"
              proof (intro allI impI)
                fix M' assume "M < M' \<and> M' \<le> N"
                then have "M' = N \<or> (M < M' \<and> M' \<le> N - 1)" by arith
                with M(6) maj False show "\<not> majorityMatch rf M'" by blast
              qed
              with M show ?thesis by force
            qed
          qed
        qed
      qed
    qed
  qed
qed


lemma majorityMatch_commitIndex [simp]:
  "majorityMatch (rf\<lparr>commitIndex := M\<rparr>) N = majorityMatch rf N"
  by (simp add: majorityMatch_def)

lemma reply_reaches_commitLoop:
  assumes "sendAppendEntries rf server args reply ok = Some rf'"
    and "commitIndex rf' \<noteq> commitIndex rf"
  shows "\<exists>rf1 first last.
           log rf1 = log rf \<and> currentTerm rf1 = currentTerm rf \<and>
           commitIndex rf1 = commitIndex rf \<and>
           at (log rf1) 0 = Some first \<and> getLastLogIndex rf1 = Some last \<and>
           commitLoop rf1 (Index first) last = Some rf'"
proof -
  from assms have go: "ok" "state rf = STATE_LEADER" "aeTerm args = currentTerm rf"
    "\<not> aerTerm reply > currentTerm rf"
    by (auto simp add: sendAppendEntries_def persist_def split: if_splits)
  define upd where "upd =
     (if Success reply then
        (if length (Entries args) > 0 then do {
           e \<leftarrow> at (Entries args) (int (length (Entries args)) - 1);
           ni \<leftarrow> store (nextIndex rf) server (Index e + 1);
           v \<leftarrow> at ni server;
           mi \<leftarrow> store (matchIndex rf) server (v - 1);
           Some (rf\<lparr>nextIndex := ni, matchIndex := mi\<rparr>)
         }
         else Some rf)
      else do {
        last \<leftarrow> getLastLogIndex rf;
        ni \<leftarrow> store (nextIndex rf) server (min_int (NextTryIndex reply) last);
        Some (rf\<lparr>nextIndex := ni\<rparr>)
      })"
  from assms(1) go have run: "do {
        rf1 \<leftarrow> upd;
        first \<leftarrow> at (log rf1) 0;
        last \<leftarrow> getLastLogIndex rf1;
        commitLoop rf1 (Index first) last
      } = Some rf'"
    by (simp add: sendAppendEntries_def upd_def)
  then obtain rf1 first last where r: "upd = Some rf1" "at (log rf1) 0 = Some first"
    "getLastLogIndex rf1 = Some last" "commitLoop rf1 (Index first) last = Some rf'"
    by (auto simp add: bind_eq_Some_conv)
  from r(1) have "log rf1 = log rf \<and> currentTerm rf1 = currentTerm rf \<and>
                  commitIndex rf1 = commitIndex rf"
    by (auto simp add: upd_def bind_eq_Some_conv split: if_splits)
  with r show ?thesis by blast
qed

text \<open>
  Claim C4. When the leader's handling of an AppendEntries reply changes \<open>commitIndex\<close>,
  the new value \<open>N\<close> is above the old one, the entry \<open>log[N]\<close> has the current term, the
  leader together with the peers whose \<open>matchIndex\<close> is at least \<open>N\<close> are more than
  half of the peers, and no index above \<open>N\<close> up to the last log index has both
  properties. Log and term are the ones the leader had.
\<close>

theorem sendAppendEntries_commit:
  assumes "sendAppendEntries rf server args reply ok = Some rf'"
    and "commitIndex rf' \<noteq> commitIndex rf"
  shows "commitIndex rf < commitIndex rf' \<and>
         log rf' = log rf \<and> currentTerm rf' = currentTerm rf \<and>
         logTermAt rf' (commitIndex rf') = Some (currentTerm rf') \<and>
         majorityMatch rf' (commitIndex rf') \<and>
         (\<forall>N last. getLastLogIndex rf' = Some last \<and> commitIndex rf' < N \<and> N \<le> last \<longrightarrow>
            \<not> (logTermAt rf' N = Some (currentTerm rf') \<and> majorityMatch rf' N))"
proof -
  from reply_reaches_commitLoop [OF assms]
  obtain rf1 first last where r: "log rf1 = log rf" "currentTerm rf1 = currentTerm rf"
    "commitIndex rf1 = commitIndex rf" "at (log rf1) 0 = Some first"
    "getLastLogIndex rf1 = Some last" "commitLoop rf1 (Index first) last = Some rf'"
    by blast
  from commitLoop_spec [OF r(6)] assms(2) r(3)
  obtain M where M: "rf' = rf1\<lparr>commitIndex := M\<rparr>" "commitIndex rf1 < M" "M \<le> last"
    "\<exists>e. at (log rf1) (M - Index first) = Some e \<and> Term e = currentTerm rf1"
    "majorityMatch rf1 M" "\<forall>M'. M < M' \<and> M' \<le> last \<longrightarrow> \<not> majorityMatch rf1 M'"
    by auto
  have last': "getLastLogIndex rf' = Some last"
    using r(5) M(1) by (simp add: getLastLogIndex_def)
  from M(1,4) r(4) have "logTermAt rf' (commitIndex rf') = Some (currentTerm rf')"
    by (auto simp add: logTermAt_def)
  with M r last' show ?thesis by auto
qed

theorem sendAppendEntries_commit_witness:
  "sendAppendEntries (replica STATE_LEADER 2 0 [ent 0 0, ent 1 2, ent 2 2] 0 0 [0, 0, 0] :: nat Raft) 1
     \<lparr>aeTerm = 2, LeaderId = 0, PrevLogIndex = 0, PrevLogTerm = 0, Entries = [ent 1 2],
       LeaderCommit = 0\<rparr>
     \<lparr>aerTerm = 2, Success = True, NextTryIndex = 1\<rparr> True =
     Some ((replica STATE_LEADER 2 0 [ent 0 0, ent 1 2, ent 2 2] 1 0 [0, 1, 0])
             \<lparr>nextIndex := [0, 2, 0]\<rparr>) \<and>
   logTermAt (replica STATE_LEADER 2 0 [ent 0 0, ent 1 2, ent 2 2] 1 0 [0, 1, 0] :: nat Raft) 1
     = Some 2 \<and>
   majorityMatch (replica STATE_LEADER 2 0 [ent 0 0, ent 1 2, ent 2 2] 1 0 [0, 1, 0] :: nat Raft) 1 \<and>
   logTermAt (replica STATE_LEADER 2 0 [ent 0 0, ent 1 2, ent 2 2] 1 0 [0, 1, 0] :: nat Raft) 2
     = Some 2 \<and>
   \<not> majorityMatch (replica STATE_LEADER 2 0 [ent 0 0, ent 1 2, ent 2 2] 1 0 [0, 1, 0] :: nat Raft) 2"
proof -
  let ?rf = "replica STATE_LEADER 2 0 [ent 0 0, ent 1 2, ent 2 2] 0 0 [0, 0, 0] :: nat Raft"
  let ?rf' = "(replica STATE_LEADER 2 0 [ent 0 0, ent 1 2, ent 2 2] 1 0 [0, 1, 0] :: nat Raft)
                \<lparr>nextIndex := [0, 2, 0]\<rparr>"
  let ?args = "\<lparr>aeTerm = 2, LeaderId = 0, PrevLogIndex = 0, PrevLogTerm = 0,
                 Entries = [ent 1 2 :: nat LogEntry], LeaderCommit = 0\<rparr>"
  let ?reply = "\<lparr>aerTerm = 2, Success = True, NextTryIndex = 1\<rparr>"
  have run: "sendAppendEntries ?rf 1 ?args ?reply True = Some ?rf'"
    by (simp add: sendAppendEntries_def replica_def ent_def at_def store_def
          getLastLogIndex_def upt_rec commitLoop.simps)
  have ne: "commitIndex ?rf' \<noteq> commitIndex ?rf"
    by (simp add: replica_def)
  have last: "getLastLogIndex ?rf' = Some 2 \<and> commitIndex ?rf' < 2 \<and> (2::int) \<le> 2"
    by (simp add: replica_def ent_def getLastLogIndex_def at_def)
  have t2: "logTermAt ?rf' 2 = Some 2"
    by (simp add: logTermAt_def replica_def ent_def at_def)
  from sendAppendEntries_commit [OF run ne] last t2
  have "logTermAt ?rf' (commitIndex ?rf') = Some (currentTerm ?rf') \<and>
        majorityMatch ?rf' (commitIndex ?rf') \<and> \<not> majorityMatch ?rf' 2"
    by (auto simp add: replica_def)
  with run t2 show ?thesis
    by (simp add: replica_def logTermAt_def majorityMatch_def at_def ent_def)
qed

subsection \<open>The index invariant under the other steps\<close>

text \<open>
  \<open>RequestVote\<close>, \<open>applyLog\<close>, the leader's handling of an AppendEntries reply and
  (on a log with increasing indices) \<open>InstallSnapshot\<close> keep
  \<open>lastApplied \<le> commitIndex \<le> lastLogIndex\<close>.
\<close>

lemma getLastLogIndex_eq_Some:
  "getLastLogIndex rf = Some N \<longleftrightarrow> log rf \<noteq> [] \<and> Index (last (log rf)) = N"
  by (cases "log rf = []") (simp_all add: getLastLogIndex_Some, simp add: getLastLogIndex_def at_def)

lemma indexInvariant_iff:
  "indexInvariant rf \<longleftrightarrow>
     log rf \<noteq> [] \<and> lastApplied rf \<le> commitIndex rf \<and> commitIndex rf \<le> Index (last (log rf))"
  by (cases "log rf = []")
     (simp add: indexInvariant_def getLastLogIndex_def at_def,
      simp add: indexInvariant_def getLastLogIndex_Some)

lemma RequestVote_indexInvariant:
  assumes "RequestVote rf args reply = Some (rf', reply')" and "indexInvariant rf"
  shows "indexInvariant rf'"
proof -
  from assms(1) have "log rf' = log rf \<and> commitIndex rf' = commitIndex rf \<and>
                      lastApplied rf' = lastApplied rf"
    by (auto simp add: RequestVote_def persist_def Let_def
          split: if_splits option.splits bool.splits)
  with assms(2) show ?thesis
    by (simp add: indexInvariant_iff)
qed

lemma applyLog_indexInvariant:
  assumes "applyLog rf = Some rf'" and "indexInvariant rf"
  shows "indexInvariant rf' \<and> lastApplied rf' = commitIndex rf'"
proof -
  from assms(1) have "log rf' = log rf \<and> commitIndex rf' = commitIndex rf \<and>
                      lastApplied rf' = commitIndex rf"
    by (auto simp add: applyLog_def bind_eq_Some_conv)
  with assms(2) show ?thesis
    by (simp add: indexInvariant_iff)
qed

lemma sendAppendEntries_frame:
  assumes "sendAppendEntries rf server args reply ok = Some rf'"
  shows "log rf' = log rf \<and> lastApplied rf' = lastApplied rf \<and>
         (commitIndex rf' = commitIndex rf \<or>
          (log rf \<noteq> [] \<and> commitIndex rf < commitIndex rf' \<and>
           commitIndex rf' \<le> Index (last (log rf))))"
proof (cases "\<not> ok \<or> state rf \<noteq> STATE_LEADER \<or> aeTerm args \<noteq> currentTerm rf")
  case True
  with assms show ?thesis by (simp add: sendAppendEntries_def)
next
  case False
  note go = this
  show ?thesis
  proof (cases "aerTerm reply > currentTerm rf")
    case True
    with assms go show ?thesis by (auto simp add: sendAppendEntries_def persist_def)
  next
    case False
    define upd where "upd =
       (if Success reply then
          (if length (Entries args) > 0 then do {
             e \<leftarrow> at (Entries args) (int (length (Entries args)) - 1);
             ni \<leftarrow> store (nextIndex rf) server (Index e + 1);
             v \<leftarrow> at ni server;
             mi \<leftarrow> store (matchIndex rf) server (v - 1);
             Some (rf\<lparr>nextIndex := ni, matchIndex := mi\<rparr>)
           }
           else Some rf)
        else do {
          lastIndex \<leftarrow> getLastLogIndex rf;
          ni \<leftarrow> store (nextIndex rf) server (min_int (NextTryIndex reply) lastIndex);
          Some (rf\<lparr>nextIndex := ni\<rparr>)
        })"
    from assms go False have run: "do {
          rf1 \<leftarrow> upd;
          first \<leftarrow> at (log rf1) 0;
          lastIndex \<leftarrow> getLastLogIndex rf1;
          commitLoop rf1 (Index first) lastIndex
        } = Some rf'"
      by (simp add: sendAppendEntries_def upd_def)
    then obtain rf1 b lastIndex where r: "upd = Some rf1"
      "getLastLogIndex rf1 = Some lastIndex" "commitLoop rf1 b lastIndex = Some rf'"
      by (auto simp add: bind_eq_Some_conv)
    from r(1) have f: "log rf1 = log rf \<and> lastApplied rf1 = lastApplied rf \<and>
                       commitIndex rf1 = commitIndex rf"
      by (auto simp add: upd_def bind_eq_Some_conv split: if_splits)
    from f r(2) have l: "log rf \<noteq> [] \<and> Index (last (log rf)) = lastIndex"
      by (simp add: getLastLogIndex_eq_Some)
    from commitLoop_spec [OF r(3)] f l show ?thesis by auto
  qed
qed

lemma sendAppendEntries_indexInvariant:
  assumes "sendAppendEntries rf server args reply ok = Some rf'" and "indexInvariant rf"
  shows "indexInvariant rf'"
  using sendAppendEntries_frame [OF assms(1)] assms(2)
  by (auto simp add: indexInvariant_iff)

lemma trimLoop_last:
  assumes "sorted_wrt (<) (map Index lg)" and "lg \<noteq> []" and "a \<le> Index (last lg)"
  shows "a \<le> Index (last (trimLoop lg a b k [\<lparr>Index = a, Term = b, Command = None\<rparr>]))"
proof (induction k)
  case 0
  show ?case by simp
next
  case (Suc k)
  show ?case
  proof (cases "Index (lg ! k) = a \<and> Term (lg ! k) = b")
    case False
    with Suc show ?thesis by auto
  next
    case True
    show ?thesis
    proof (cases "drop (Suc k) lg = []")
      case True
      with \<open>Index (lg ! k) = a \<and> Term (lg ! k) = b\<close> show ?thesis by simp
    next
      case False
      then have "last (drop (Suc k) lg) = last lg" by simp
      with False True assms(3) show ?thesis by simp
    qed
  qed
qed

lemma InstallSnapshot_indexInvariant:
  assumes "indexInvariant rf" and "sorted_wrt (<) (map Index (log rf))"
  shows "indexInvariant (fst (InstallSnapshot rf args reply))"
proof (cases "isTerm args \<ge> currentTerm rf \<and> LastIncludedIndex args > commitIndex rf")
  case False
  then have "log (fst (InstallSnapshot rf args reply)) = log rf \<and>
             commitIndex (fst (InstallSnapshot rf args reply)) = commitIndex rf \<and>
             lastApplied (fst (InstallSnapshot rf args reply)) = lastApplied rf"
    by (auto simp add: InstallSnapshot_def Let_def persist_def)
  with assms(1) show ?thesis by (simp add: indexInvariant_iff)
next
  case True
  let ?rf' = "fst (InstallSnapshot rf args reply)"
  let ?ph = "\<lparr>Index = LastIncludedIndex args, Term = LastIncludedTerm args,
              Command = None\<rparr> :: 'a LogEntry"
  from True have lg: "log ?rf' = trimLoop (log rf) (LastIncludedIndex args)
                         (LastIncludedTerm args) (length (log rf)) [?ph]"
    and ci: "commitIndex ?rf' = LastIncludedIndex args"
    and la: "lastApplied ?rf' = LastIncludedIndex args"
    by (simp_all add: InstallSnapshot_def Let_def trimLog_def persist_def)
  have ne: "log ?rf' \<noteq> []"
  proof -
    have "\<And>k new. new \<noteq> [] \<Longrightarrow>
            trimLoop (log rf) (LastIncludedIndex args) (LastIncludedTerm args) k new \<noteq> []"
      subgoal for k new by (induction k) auto
      done
    with lg show ?thesis by simp
  qed
  show ?thesis
  proof (cases "LastIncludedIndex args \<le> Index (last (log rf))")
    case True
    from assms(1) have "log rf \<noteq> []" by (simp add: indexInvariant_iff)
    from trimLoop_last [OF assms(2) this True] lg ci la ne show ?thesis
      by (simp add: indexInvariant_iff)
  next
    case False
    have "\<forall>x\<in>set (log rf). \<not> (Index x = LastIncludedIndex args \<and> Term x = LastIncludedTerm args)"
    proof
      fix x assume x: "x \<in> set (log rf)"
      from assms(1) have ne0: "log rf \<noteq> []" by (simp add: indexInvariant_iff)
      have "Index x \<le> Index (last (log rf))"
      proof (cases "x = last (log rf)")
        case True then show ?thesis by simp
      next
        case False
        with x ne0 have "x \<in> set (butlast (log rf))"
          by (metis append_butlast_last_id insert_iff list.set(1,2) set_append Un_iff empty_iff)
        moreover from assms(2) ne0
        have "sorted_wrt (<) (map Index (butlast (log rf) @ [last (log rf)]))" by simp
        ultimately show ?thesis
          by (auto simp add: sorted_wrt_append simp del: append_butlast_last_id)
      qed
      with False show "\<not> (Index x = LastIncludedIndex args \<and> Term x = LastIncludedTerm args)"
        by auto
    qed
    from trimLoop_absent [OF this] lg ci la show ?thesis
      by (simp add: indexInvariant_iff)
  qed
qed

section \<open>Properties of the key-value layer\<close>

subsection \<open>applyOp\<close>

lemma applyOp_resOK: "resOK (snd (applyOp kv op))"
  by (simp add: applyOp_def Let_def Result_zero_def split: option.splits prod.splits)

lemma applyOp_ack: "kv_ack (fst (applyOp kv op)) = (kv_ack kv)(opClientId op \<mapsto> opRequestId op)"
  by (simp add: applyOp_def Let_def split: option.splits prod.splits)

lemma applyOps_replay_appends_twice:
  "kv_data (applyOps (kvserver (replica STATE_LEADER 1 0 [ent 0 0] 0 0 [0, 0, 0])
                        Map.empty Map.empty)
              [mkOp ''append'' 1 5 ''k'' ''X'', mkOp ''append'' 1 6 ''k'' ''Y'',
               mkOp ''append'' 1 5 ''k'' ''X'', mkOp ''append'' 1 6 ''k'' ''Y'']) ''k''
     = Some ''XYY''"
  by (simp add: applyOp_def kvserver_def mkOp_def Let_def Result_zero_def OK_def
      isDuplicated_def)

text \<open>
  Claim C1, evaluated at a failing input. The claim has the dispatcher set \<open>ack[c]\<close> to
  \<open>max(ack[c], r)\<close>, so that \<open>ack[c]\<close> never decreases. \<open>applyOp\<close> assigns
  \<open>ack[c] = r\<close>: with \<open>ack[1] = 5\<close>, applying a get of client 1 with request id 3
  leaves \<open>ack[1] = 3\<close>.
\<close>

theorem applyOp_lowers_ack:
  "kv_ack (kvserver (replica STATE_LEADER 1 0 [ent 0 0] 0 0 [0, 0, 0]) Map.empty [1 \<mapsto> 5]) 1
     = Some 5 \<and>
   kv_ack (fst (applyOp (kvserver (replica STATE_LEADER 1 0 [ent 0 0] 0 0 [0, 0, 0])
                           Map.empty [1 \<mapsto> 5])
                        (mkOp ''get'' 1 3 ''k'' []))) 1 = Some 3"
  by (simp add: applyOp_def kvserver_def mkOp_def Let_def Result_zero_def ErrNoKey_def)

text \<open>
  Claim C9. The result of \<open>applyOp\<close> has \<open>Err = ErrNoKey\<close> exactly for a get of a key
  absent from \<open>data\<close>, and then its value is the empty string; a put or an append has
  \<open>Err = OK\<close>; a get of a present key has \<open>Err = OK\<close> and the stored value.
\<close>

theorem applyOp_Err:
  "(resErr (snd (applyOp kv op)) = ErrNoKey \<longleftrightarrow>
      opCommand op = ''get'' \<and> kv_data kv (opKey op) = None) \<and>
   (opCommand op = ''get'' \<and> kv_data kv (opKey op) = None \<longrightarrow>
      resValue (snd (applyOp kv op)) = []) \<and>
   (opCommand op = ''put'' \<or> opCommand op = ''append'' \<longrightarrow>
      resErr (snd (applyOp kv op)) = OK) \<and>
   (\<forall>v. opCommand op = ''get'' \<and> kv_data kv (opKey op) = Some v \<longrightarrow>
      resErr (snd (applyOp kv op)) = OK \<and> resValue (snd (applyOp kv op)) = v)"
  by (auto simp add: applyOp_def Let_def Result_zero_def OK_def ErrNoKey_def
      split: option.splits prod.splits)

theorem applyOp_Err_witness:
  "resErr (snd (applyOp (kvserver (replica STATE_LEADER 1 0 [ent 0 0] 0 0 [0, 0, 0])
                           [''a'' \<mapsto> ''x''] Map.empty)
                        (mkOp ''get'' 1 1 ''b'' []))) = ErrNoKey \<and>
   resValue (snd (applyOp (kvserver (replica STATE_LEADER 1 0 [ent 0 0] 0 0 [0, 0, 0])
                           [''a'' \<mapsto> ''x''] Map.empty)
                        (mkOp ''get'' 1 1 ''b'' []))) = [] \<and>
   resErr (snd (applyOp (kvserver (replica STATE_LEADER 1 0 [ent 0 0] 0 0 [0, 0, 0])
                           [''a'' \<mapsto> ''x''] Map.empty)
                        (mkOp ''put'' 1 1 ''b'' ''y''))) = OK \<and>
   resErr (snd (applyOp (kvserver (replica STATE_LEADER 1 0 [ent 0 0] 0 0 [0, 0, 0])
                           [''a'' \<mapsto> ''x''] Map.empty)
                        (mkOp ''get'' 1 1 ''a'' []))) = OK \<and>
   resValue (snd (applyOp (kvserver (replica STATE_LEADER 1 0 [ent 0 0] 0 0 [0, 0, 0])
                           [''a'' \<mapsto> ''x''] Map.empty)
                        (mkOp ''get'' 1 1 ''a'' []))) = ''x''"
  using applyOp_Err [of "kvserver (replica STATE_LEADER 1 0 [ent 0 0] 0 0 [0, 0, 0])
                           [''a'' \<mapsto> ''x''] Map.empty" "mkOp ''get'' 1 1 ''b'' []"]
        applyOp_Err [of "kvserver (replica STATE_LEADER 1 0 [ent 0 0] 0 0 [0, 0, 0])
                           [''a'' \<mapsto> ''x''] Map.empty" "mkOp ''put'' 1 1 ''b'' ''y''"]
        applyOp_Err [of "kvserver (replica STATE_LEADER 1 0 [ent 0 0] 0 0 [0, 0, 0])
                           [''a'' \<mapsto> ''x''] Map.empty" "mkOp ''get'' 1 1 ''a'' []"]
  by (simp add: kvserver_def mkOp_def)

subsection \<open>The RPC handlers\<close>

lemma Run_command_sends_applyOp:
  "Run_command kv msg = Some kv' \<Longrightarrow> msgCommand msg = Some op \<Longrightarrow>
   \<exists>waiting. kv_resultCh kv' (CommandIndex msg) = Some (waiting @ [snd (applyOp kv op)])"
  by (auto simp add: Run_command_def Let_def split: option.splits prod.splits)

lemma appendEntryToLog_OK:
  assumes "log (kv_rf kv) \<noteq> []"
    and "\<forall>r. sel = Received r \<longrightarrow> resOK r"
  shows "\<exists>kv' result. appendEntryToLog kv entry sel = Some (kv', result) \<and>
           (resOK result \<longleftrightarrow>
              state (kv_rf kv) = STATE_LEADER \<and>
              (\<exists>r. sel = Received r \<and> resClientId r = opClientId entry \<and>
                   resRequestId r = opRequestId entry))"
  using assms
  by (cases sel)
     (auto simp add: appendEntryToLog_def Start_def getLastLogIndex_Some Let_def
        Result_zero_def isMatch_def)

text \<open>
  Claim C7. The results that arrive on a result channel are those the dispatcher sends,
  which are results of \<open>applyOp\<close>. Then \<open>Get\<close> and \<open>PutAppend\<close> reply
  \<open>wrongLeader = false\<close> exactly when the replica is the leader, the \<open>select\<close> received
  a result before the 240 ms timer fired, and that result carries the client id and the
  request id of the request; otherwise (not leader, other ids, timeout) they reply
  \<open>wrongLeader = true\<close>.
\<close>

theorem handler_wrongLeader:
  assumes "log (kv_rf kv) \<noteq> []"
    and "\<forall>r. sel = Received r \<longrightarrow> (\<exists>kv0 op. r = snd (applyOp kv0 op))"
  shows "(\<exists>kv' reply'. Get kv gargs greply sel = Some (kv', reply') \<and>
            (\<not> grWrongLeader reply' \<longleftrightarrow>
               state (kv_rf kv) = STATE_LEADER \<and>
               (\<exists>r. sel = Received r \<and> resClientId r = gaClientId gargs \<and>
                    resRequestId r = gaRequestId gargs))) \<and>
         (\<exists>kv' reply'. PutAppend kv pargs preply sel = Some (kv', reply') \<and>
            (\<not> parWrongLeader reply' \<longleftrightarrow>
               state (kv_rf kv) = STATE_LEADER \<and>
               (\<exists>r. sel = Received r \<and> resClientId r = paClientId pargs \<and>
                    resRequestId r = paRequestId pargs)))"
proof -
  from assms(2) have ok: "\<forall>r. sel = Received r \<longrightarrow> resOK r"
    using applyOp_resOK by blast
  let ?g = "Op_zero\<lparr>opCommand := ''get'', opClientId := gaClientId gargs,
                     opRequestId := gaRequestId gargs, opKey := gaKey gargs\<rparr>"
  let ?p = "Op_zero\<lparr>opCommand := paCommand pargs, opClientId := paClientId pargs,
                     opRequestId := paRequestId pargs, opKey := paKey pargs,
                     opValue := paValue pargs\<rparr>"
  from appendEntryToLog_OK [OF assms(1) ok, of ?g]
  have "\<exists>kv' reply'. Get kv gargs greply sel = Some (kv', reply') \<and>
            (\<not> grWrongLeader reply' \<longleftrightarrow>
               state (kv_rf kv) = STATE_LEADER \<and>
               (\<exists>r. sel = Received r \<and> resClientId r = gaClientId gargs \<and>
                    resRequestId r = gaRequestId gargs))"
    by (auto simp add: Get_def Let_def)
  moreover from appendEntryToLog_OK [OF assms(1) ok, of ?p]
  have "\<exists>kv' reply'. PutAppend kv pargs preply sel = Some (kv', reply') \<and>
            (\<not> parWrongLeader reply' \<longleftrightarrow>
               state (kv_rf kv) = STATE_LEADER \<and>
               (\<exists>r. sel = Received r \<and> resClientId r = paClientId pargs \<and>
                    resRequestId r = paRequestId pargs))"
    by (auto simp add: PutAppend_def Let_def)
  ultimately show ?thesis by blast
qed

theorem handler_wrongLeader_witness:
  "log (kv_rf (kvserver (replica STATE_LEADER 1 0 [ent 0 0] 0 0 [0, 0, 0]) Map.empty Map.empty)) \<noteq> [] \<and>
   (\<exists>kv' reply'.
      Get (kvserver (replica STATE_LEADER 1 0 [ent 0 0] 0 0 [0, 0, 0]) Map.empty Map.empty)
        \<lparr>gaKey = ''k'', gaClientId = 7, gaRequestId = 2\<rparr>
        \<lparr>grWrongLeader = False, grErr = [], grValue = []\<rparr>
        (Received (snd (applyOp (kvserver (replica STATE_FOLLOWER 1 0 [ent 0 0] 0 0 [0, 0, 0])
                                   Map.empty Map.empty)
                                (mkOp ''put'' 7 1 ''k'' ''v'')))) = Some (kv', reply') \<and>
      grWrongLeader reply') \<and>
   (\<exists>kv' reply'.
      PutAppend (kvserver (replica STATE_LEADER 1 0 [ent 0 0] 0 0 [0, 0, 0]) Map.empty Map.empty)
        \<lparr>paKey = ''k'', paValue = ''v'', paCommand = ''put'', paClientId = 7, paRequestId = 1\<rparr>
        \<lparr>parWrongLeader = False, parErr = []\<rparr>
        (Received (snd (applyOp (kvserver (replica STATE_FOLLOWER 1 0 [ent 0 0] 0 0 [0, 0, 0])
                                   Map.empty Map.empty)
                                (mkOp ''put'' 7 1 ''k'' ''v'')))) = Some (kv', reply') \<and>
      \<not> parWrongLeader reply')"
proof -
  let ?kv = "kvserver (replica STATE_LEADER 1 0 [ent 0 0] 0 0 [0, 0, 0]) Map.empty Map.empty"
  let ?sel = "Received (snd (applyOp (kvserver (replica STATE_FOLLOWER 1 0 [ent 0 0] 0 0 [0, 0, 0])
                                  Map.empty Map.empty)
                               (mkOp ''put'' 7 1 ''k'' ''v'')))"
  have h1: "log (kv_rf ?kv) \<noteq> []"
    by (simp add: kvserver_def replica_def)
  have h2: "\<forall>r. ?sel = Received r \<longrightarrow> (\<exists>kv0 op. r = snd (applyOp kv0 op))"
    by blast
  have ids: "resClientId (snd (applyOp (kvserver (replica STATE_FOLLOWER 1 0 [ent 0 0] 0 0 [0, 0, 0])
                                  Map.empty Map.empty)
                               (mkOp ''put'' 7 1 ''k'' ''v''))) = 7 \<and>
             resRequestId (snd (applyOp (kvserver (replica STATE_FOLLOWER 1 0 [ent 0 0] 0 0 [0, 0, 0])
                                  Map.empty Map.empty)
                               (mkOp ''put'' 7 1 ''k'' ''v''))) = 1"
    by (simp add: applyOp_def mkOp_def Let_def Result_zero_def split: prod.splits)
  have st: "state (kv_rf ?kv) = STATE_LEADER"
    by (simp add: kvserver_def replica_def)
  from handler_wrongLeader [OF h1 h2,
      of "\<lparr>gaKey = ''k'', gaClientId = 7, gaRequestId = 2\<rparr>"
         "\<lparr>grWrongLeader = False, grErr = [], grValue = []\<rparr>"
         "\<lparr>paKey = ''k'', paValue = ''v'', paCommand = ''put'', paClientId = 7, paRequestId = 1\<rparr>"
         "\<lparr>parWrongLeader = False, parErr = []\<rparr>"] ids st h1 h2
  show ?thesis by auto
qed

section \<open>Properties of the linearizability checker\<close>

lemma kvPartition_put_get: "kvPartition [putOp k v2 c1 out r1, getOp k c2 v1 r2] =
   Some [ [putOp k v2 c1 out r1, getOp k c2 v1 r2] ]"
  by (simp add: kvPartition_def putOp_def getOp_def)

lemma makeEntries_put_get:
  assumes "c1 < r1" "r1 < c2" "c2 < r2"
  shows "makeEntries [putOp k v2 c1 out r1, getOp k c2 v1 r2] =
  [\<lparr>e_kind = False, e_value = VKvInput \<lparr>kvOp = 1, kvKey = k, kvValue = v2\<rparr>, e_id = 0, e_time = c1\<rparr>,
   \<lparr>e_kind = True, e_value = VKvOutput out, e_id = 0, e_time = r1\<rparr>,
   \<lparr>e_kind = False, e_value = VKvInput \<lparr>kvOp = 0, kvKey = k, kvValue = []\<rparr>, e_id = 1, e_time = c2\<rparr>,
   \<lparr>e_kind = True, e_value = VKvOutput \<lparr>outValue = v1\<rparr>, e_id = 1, e_time = r2\<rparr>]"
  using assms by (simp add: makeEntries_def putOp_def getOp_def)

lemma makeLinkedEntries_put_get:
  assumes "c1 < r1" "r1 < c2" "c2 < r2"
  shows "makeLinkedEntries (makeEntries [putOp k v2 c1 out r1, getOp k c2 v1 r2]) = Some
  ([\<lparr>n_value = VKvOutput \<lparr>outValue = v1\<rparr>, n_match = None, n_id = 1,
       n_next = None, n_prev = Some 1\<rparr>,
    \<lparr>n_value = VKvInput \<lparr>kvOp = 0, kvKey = k, kvValue = []\<rparr>,
       n_match = Some 0, n_id = 1, n_next = Some 0, n_prev = Some 2\<rparr>,
    \<lparr>n_value = VKvOutput out, n_match = None, n_id = 0,
       n_next = Some 1, n_prev = Some 3\<rparr>,
    \<lparr>n_value = VKvInput \<lparr>kvOp = 1, kvKey = k, kvValue = v2\<rparr>,
       n_match = Some 2, n_id = 0, n_next = Some 2, n_prev = None\<rparr>],
   Some 3)"
  by (simp add: makeEntries_put_get [OF assms] makeLinkedEntries_def new_node_def insertBefore_def deref_def
        assign_def)

lemma length_nodes_linkedPutGet: "length_nodes (linkedPutGet k v1 v2 out) (Some 3) = Some 4"
  by (simp add: length_nodes_def linkedPutGet_def deref_def)

lemma newBitset_2: "newBitset 2 = [0]"
  by (simp add: newBitset_def)


lemma checkSingle_stale_read:
  assumes "v1 \<noteq> v2"
  shows "checkSingle (Suc (Suc (Suc (Suc fuel)))) (fillDefault KvModel)
           (linkedPutGet k v1 v2 out, Some 3) 0 = Some False"
  using assms
  by (simp add: checkSingle_def length_nodes_linkedPutGet newBitset_2 new_node_def)
     (simp add: linkedPutGet_def insertBefore_def deref_def
        assign_def fillDefault_def KvModel_def kvStep_def bitset_set_def
        bitset_clear_def bitsetIndex_def clone_def cacheContains_def lift_def unlift_def
        ShallowEqual_def Let_def)

lemma hash_bit0: "hash [1] = 0"
  by (simp add: hash_def popcnt_def popcnt_word_def)

lemma hash_bits01: "hash [3] = 1"
  by (simp add: hash_def popcnt_def popcnt_word_def)

lemma checkSingle_fresh_read:
  "checkSingle (Suc (Suc (Suc fuel))) (fillDefault KvModel)
           (linkedPutGet k v2 v2 out, Some 3) 0 = Some True"
  by (simp add: checkSingle_def length_nodes_linkedPutGet newBitset_2 new_node_def)
     (simp add: linkedPutGet_def insertBefore_def deref_def
        assign_def fillDefault_def KvModel_def kvStep_def bitset_set_def
        bitset_clear_def bitsetIndex_def clone_def cacheContains_def lift_def unlift_def
        ShallowEqual_def Let_def hash_bit0 hash_bits01 equals_def)

lemma CheckOperations_fresh_read:
  assumes "c1 < r1" and "r1 < c2" and "c2 < r2"
  shows "CheckOperations (Suc (Suc (Suc fuel))) KvModel
           [putOp k v2 c1 out r1, getOp k c2 v2 r2] = Some True"
proof -
  have p: "Partition (fillDefault KvModel) = Some kvPartition"
    by (simp add: fillDefault_def KvModel_def)
  from makeLinkedEntries_put_get [OF assms]
  have l: "makeLinkedEntries (makeEntries [putOp k v2 c1 out r1, getOp k c2 v2 r2]) =
             Some (linkedPutGet k v2 v2 out, Some 3)"
    by (simp add: linkedPutGet_def)
  show ?thesis
    by (simp add: CheckOperations_def p kvPartition_put_get l checkSingle_fresh_read)
qed

text \<open>
  Claim C8. For the history of one key with a put of \<open>v2\<close> that has returned before a get
  is called, where the get returns another value \<open>v1\<close>, \<open>CheckOperations\<close> with
  \<open>KvModel\<close> returns false: the search ends in its fourth turn, so every fuel of at least
  four gives the answer.
\<close>

theorem CheckOperations_stale_read:
  assumes "c1 < r1" and "r1 < c2" and "c2 < r2" and "v1 \<noteq> v2"
  shows "CheckOperations (Suc (Suc (Suc (Suc fuel)))) KvModel
           [putOp k v2 c1 out r1, getOp k c2 v1 r2] = Some False"
proof -
  have p: "Partition (fillDefault KvModel) = Some kvPartition"
    by (simp add: fillDefault_def KvModel_def)
  from makeLinkedEntries_put_get [OF assms(1-3)]
  have l: "makeLinkedEntries (makeEntries [putOp k v2 c1 out r1, getOp k c2 v1 r2]) =
             Some (linkedPutGet k v1 v2 out, Some 3)"
    by (simp add: linkedPutGet_def)
  show ?thesis
    by (simp add: CheckOperations_def p kvPartition_put_get l checkSingle_stale_read [OF assms(4)])
qed

theorem CheckOperations_stale_read_witness:
  "(0::int) < 1 \<and> (1::int) < 2 \<and> (2::int) < 3 \<and> ''v1'' \<noteq> ''v2'' \<and>
   CheckOperations 4 KvModel
     [putOp ''k'' ''v2'' 0 \<lparr>outValue = []\<rparr> 1, getOp ''k'' 2 ''v1'' 3] = Some False"
proof -
  have f: "(4::nat) = Suc (Suc (Suc (Suc 0)))" by simp
  have a: "(0::int) < 1" "(1::int) < 2" "(2::int) < 3" "''v1'' \<noteq> ''v2''" by simp_all
  from CheckOperations_stale_read [OF a, of 0 "''k''" "\<lparr>outValue = []\<rparr>"] a
  show ?thesis by (simp only: f) simp
qed

end
